theory Spec2Isabelle
  imports Complex_Main
begin

section \<open>Detector geometry of \<open>karabo_data/geometry2.py\<close>\<close>

text \<open>
  Coordinates of the source are numpy floats. They are modelled as rationals: every finite
  float is a rational, and the operations used below (rounding to the nearest integer,
  truncation, comparison, sums and products of small integers and halves) are exact on
  them. Arrays and scalars of type int32 keep their 32 bits: the conversion from a float,
  and the wrap-around of sums and products, are written out. Python integers, and int64
  arrays, are modelled as unbounded integers. Integer arithmetic follows numpy 2, where an
  operation between an int32 scalar and a Python integer stays in int32; under numpy 1 the
  same operation is carried out in 64 bits, and both agree as long as the values fit 32
  bits.
\<close>

subsection \<open>Errors\<close>

datatype error =
    AssertionError     \<comment> \<open>a failed \<open>assert\<close>: the shape check and the axis-alignment check\<close>
  | ValueError         \<comment> \<open>numpy: empty stack, zero slice step, unequal split, shapes that do not broadcast\<close>
  | IndexError         \<comment> \<open>index out of bounds\<close>
  | LinAlgError        \<comment> \<open>\<open>np.linalg.inv\<close> of a singular matrix\<close>
  | OverflowError      \<comment> \<open>a Python integer that does not fit the int32 operand it meets\<close>

subsection \<open>Numeric helpers\<close>

type_synonym vec3 = "rat \<times> rat \<times> rat"
type_synonym vec2 = "rat \<times> rat"
type_synonym ivec2 = "int \<times> int"

definition around :: "rat \<Rightarrow> int" where
  \<comment> \<open>\<open>np.around\<close>: nearest integer, a tie goes to the even neighbour\<close>
  "around x =
     (let f = \<lfloor>x\<rfloor>; d = x - of_int f
      in if d < 1 / 2 then f
         else if 1 / 2 < d then f + 1
         else if even f then f else f + 1)"

definition int32_range :: "int \<Rightarrow> bool" where
  "int32_range n \<longleftrightarrow> - (2 ^ 31) \<le> n \<and> n < 2 ^ 31"

definition astype_int32 :: "int \<Rightarrow> int" where
  \<comment> \<open>\<open>.astype(np.int32)\<close> of a rounded float: the identity on the 32-bit range; outside
      of it the conversion yields the smallest int32. (An integer-typed input array would
      wrap instead; the two agree on the 32-bit range.)\<close>
  "astype_int32 n = (if int32_range n then n else - (2 ^ 31))"

definition wrap_int32 :: "int \<Rightarrow> int" where
  \<comment> \<open>the int32 result of an integer operation whose exact result is \<open>n\<close>\<close>
  "wrap_int32 n = (n + 2 ^ 31) mod 2 ^ 32 - 2 ^ 31"

definition np_abs32 :: "int \<Rightarrow> int" where
  \<comment> \<open>\<open>np.abs\<close> on an int32 value stays in int32\<close>
  "np_abs32 n = wrap_int32 \<bar>n\<bar>"

definition xy :: "vec3 \<Rightarrow> vec2" where
  \<comment> \<open>\<open>v[:2]\<close>\<close>
  "xy v = (fst v, fst (snd v))"

definition rev2 :: "'a \<times> 'a \<Rightarrow> 'a \<times> 'a" where
  \<comment> \<open>\<open>v[::-1]\<close> on a pair\<close>
  "rev2 v = (snd v, fst v)"

definition around32 :: "vec2 \<Rightarrow> ivec2" where
  \<comment> \<open>\<open>np.around(v).astype(np.int32)\<close>\<close>
  "around32 v = (astype_int32 (around (fst v)), astype_int32 (around (snd v)))"

definition abs_tuple :: "ivec2 \<Rightarrow> ivec2" where
  \<comment> \<open>\<open>tuple(np.abs(v))\<close>\<close>
  "abs_tuple v = (np_abs32 (fst v), np_abs32 (snd v))"

definition add2 :: "ivec2 \<Rightarrow> ivec2 \<Rightarrow> ivec2" where
  "add2 a b = (fst a + fst b, snd a + snd b)"

definition sub2 :: "ivec2 \<Rightarrow> ivec2 \<Rightarrow> ivec2" where
  "sub2 a b = (fst a - fst b, snd a - snd b)"

definition neg2 :: "ivec2 \<Rightarrow> ivec2" where
  "neg2 a = (- fst a, - snd a)"

definition scale2 :: "ivec2 \<Rightarrow> int \<Rightarrow> ivec2" where
  "scale2 a k = (fst a * k, snd a * k)"

definition min2 :: "ivec2 \<Rightarrow> ivec2 \<Rightarrow> ivec2" where
  "min2 a b = (min (fst a) (fst b), min (snd a) (snd b))"

definition max2 :: "ivec2 \<Rightarrow> ivec2 \<Rightarrow> ivec2" where
  "max2 a b = (max (fst a) (fst b), max (snd a) (snd b))"

definition le2 :: "ivec2 \<Rightarrow> ivec2 \<Rightarrow> bool" where
  "le2 a b \<longleftrightarrow> fst a \<le> fst b \<and> snd a \<le> snd b"

subsection \<open>\<open>GeometryFragment\<close> and \<open>GridGeometryFragment\<close>\<close>

record fragment =
  corner_pos :: vec3
  ss_vec :: vec3
  fs_vec :: vec3
  ss_pixels :: int
  fs_pixels :: int

text \<open>
  The grid fragment keeps what \<open>GridGeometryFragment.__init__\<close> stores. Its
  \<open>transform\<close> attribute is a closure over \<open>ss_order\<close> and \<open>fs_order\<close>, one of
  two lambdas: \<open>transposed\<close> tells which one, and the two orders are the slice steps.
\<close>

record grid_fragment =
  ss_vec_yx :: ivec2
  fs_vec_yx :: ivec2
  ss_pixels_yx :: int
  fs_pixels_yx :: int
  transposed :: bool
  ss_order :: int
  fs_order :: int
  pixel_dims :: ivec2
  corner_idx :: ivec2
  opp_corner_idx :: ivec2

text \<open>
  The terms of \<open>corner_shift\<close> are \<open>min(order, 0) * pixels\<close>, where \<open>order\<close> is an
  int32 scalar and \<open>pixels\<close> a Python integer. \<open>min\<close> returns its first argument unless
  the second is smaller, so the result is the Python integer 0 for a positive order and the
  int32 scalar otherwise.
\<close>

datatype npint =
    PyInt int     \<comment> \<open>a Python integer\<close>
  | Int32 int     \<comment> \<open>an int32 scalar\<close>

definition min_order_0 :: "int \<Rightarrow> npint" where
  \<comment> \<open>\<open>min(order, 0)\<close>\<close>
  "min_order_0 ord = (if 0 < ord then PyInt 0 else Int32 ord)"

fun times_pixels :: "npint \<Rightarrow> int \<Rightarrow> error + npint" where
  \<comment> \<open>\<open>m * pixels\<close>: between Python integers exact; an int32 scalar takes the Python
      integer as int32, raises if it does not fit, and wraps the product\<close>
  "times_pixels (PyInt a) p = Inr (PyInt (a * p))"
| "times_pixels (Int32 a) p =
     (if int32_range p then Inr (Int32 (wrap_int32 (a * p))) else Inl OverflowError)"

fun npint_val :: "npint \<Rightarrow> int" where
  "npint_val (PyInt a) = a"
| "npint_val (Int32 a) = a"

fun is_int32 :: "npint \<Rightarrow> bool" where
  "is_int32 (PyInt a) = False"
| "is_int32 (Int32 a) = True"

definition add_corner_shift :: "ivec2 \<Rightarrow> npint \<Rightarrow> npint \<Rightarrow> ivec2" where
  \<comment> \<open>\<open>corner_pos + np.array([a, b])\<close> with an int32 \<open>corner_pos\<close>: the new array is
      int32 when both entries are int32 scalars, and the sum wraps; with a Python integer
      among them it is int64, and so is the sum\<close>
  "add_corner_shift cpos a b =
     (if is_int32 a \<and> is_int32 b
      then (wrap_int32 (fst cpos + npint_val a), wrap_int32 (snd cpos + npint_val b))
      else (fst cpos + npint_val a, snd cpos + npint_val b))"

definition GridGeometryFragment ::
  "ivec2 \<Rightarrow> ivec2 \<Rightarrow> ivec2 \<Rightarrow> int \<Rightarrow> int \<Rightarrow> error + grid_fragment" where
  "GridGeometryFragment cpos ssv fsv ssp fsp =
     (if fst fsv = 0 then
        (let fs_ord = snd fsv; ss_ord = fst ssv in
         case times_pixels (min_order_0 ss_ord) ssp of Inl e \<Rightarrow> Inl e | Inr shift_y \<Rightarrow>
         case times_pixels (min_order_0 fs_ord) fsp of Inl e \<Rightarrow> Inl e | Inr shift_x \<Rightarrow>
           (let dims = (ssp, fsp);
                cidx = add_corner_shift cpos shift_y shift_x
            in Inr \<lparr>ss_vec_yx = ssv, fs_vec_yx = fsv, ss_pixels_yx = ssp, fs_pixels_yx = fsp,
                 transposed = False, ss_order = ss_ord, fs_order = fs_ord,
                 pixel_dims = dims, corner_idx = cidx, opp_corner_idx = add2 cidx dims\<rparr>))
      else
        (let fs_ord = fst fsv; ss_ord = snd ssv in
         case times_pixels (min_order_0 fs_ord) fsp of Inl e \<Rightarrow> Inl e | Inr shift_y \<Rightarrow>
         case times_pixels (min_order_0 ss_ord) ssp of Inl e \<Rightarrow> Inl e | Inr shift_x \<Rightarrow>
           (let dims = (fsp, ssp);
                cidx = add_corner_shift cpos shift_y shift_x
            in Inr \<lparr>ss_vec_yx = ssv, fs_vec_yx = fsv, ss_pixels_yx = ssp, fs_pixels_yx = fsp,
                 transposed = True, ss_order = ss_ord, fs_order = fs_ord,
                 pixel_dims = dims, corner_idx = cidx, opp_corner_idx = add2 cidx dims\<rparr>)))"

definition axis_aligned :: "ivec2 \<Rightarrow> ivec2 \<Rightarrow> bool" where
  \<comment> \<open>\<open>{tuple(np.abs(ss_vec)), tuple(np.abs(fs_vec))} == {(0, 1), (1, 0)}\<close>\<close>
  "axis_aligned ssv fsv \<longleftrightarrow> {abs_tuple ssv, abs_tuple fsv} = {(0, 1), (1, 0)}"

definition snap :: "fragment \<Rightarrow> error + grid_fragment" where
  "snap f =
     (let cpos = around32 (xy (corner_pos f));
          ssv = around32 (xy (ss_vec f));
          fsv = around32 (xy (fs_vec f))
      in if axis_aligned ssv fsv
         then GridGeometryFragment (rev2 cpos) (rev2 ssv) (rev2 fsv) (ss_pixels f) (fs_pixels f)
         else Inl AssertionError)"

definition vadd :: "vec3 \<Rightarrow> vec3 \<Rightarrow> vec3" where
  "vadd a b = (fst a + fst b, fst (snd a) + fst (snd b), snd (snd a) + snd (snd b))"

definition vscale :: "vec3 \<Rightarrow> rat \<Rightarrow> vec3" where
  "vscale a k = (fst a * k, fst (snd a) * k, snd (snd a) * k)"

definition corners :: "fragment \<Rightarrow> vec3 list" where
  "corners f =
     [corner_pos f,
      vadd (corner_pos f) (vscale (fs_vec f) (of_int (fs_pixels f))),
      vadd (vadd (corner_pos f) (vscale (ss_vec f) (of_int (ss_pixels f))))
           (vscale (fs_vec f) (of_int (fs_pixels f))),
      vadd (corner_pos f) (vscale (ss_vec f) (of_int (ss_pixels f)))]"

subsection \<open>Reading a grid fragment\<close>

definition grid_fragment_exact :: "ivec2 \<Rightarrow> ivec2 \<Rightarrow> ivec2 \<Rightarrow> int \<Rightarrow> int \<Rightarrow> grid_fragment" where
  \<comment> \<open>what \<open>GridGeometryFragment\<close> builds when none of its 32-bit operations overflows\<close>
  "grid_fragment_exact cpos ssv fsv ssp fsp =
     (if fst fsv = 0 then
        (let cidx = add2 cpos (min (fst ssv) 0 * ssp, min (snd fsv) 0 * fsp) in
         \<lparr>ss_vec_yx = ssv, fs_vec_yx = fsv, ss_pixels_yx = ssp, fs_pixels_yx = fsp,
          transposed = False, ss_order = fst ssv, fs_order = snd fsv,
          pixel_dims = (ssp, fsp), corner_idx = cidx, opp_corner_idx = add2 cidx (ssp, fsp)\<rparr>)
      else
        (let cidx = add2 cpos (min (fst fsv) 0 * fsp, min (snd ssv) 0 * ssp) in
         \<lparr>ss_vec_yx = ssv, fs_vec_yx = fsv, ss_pixels_yx = ssp, fs_pixels_yx = fsp,
          transposed = True, ss_order = snd ssv, fs_order = fst fsv,
          pixel_dims = (fsp, ssp), corner_idx = cidx, opp_corner_idx = add2 cidx (fsp, ssp)\<rparr>))"

definition row_step :: "grid_fragment \<Rightarrow> int" where
  \<comment> \<open>the slice step that \<open>transform\<close> applies to the rows of its result\<close>
  "row_step g = (if transposed g then fs_order g else ss_order g)"

definition col_step :: "grid_fragment \<Rightarrow> int" where
  \<comment> \<open>the slice step that \<open>transform\<close> applies to the columns of its result\<close>
  "col_step g = (if transposed g then ss_order g else fs_order g)"

definition block_corners :: "ivec2 \<Rightarrow> grid_fragment \<Rightarrow> ivec2 list" where
  \<comment> \<open>the four corners of the block that starts at grid position \<open>p\<close> and runs along
      the rounded slow-scan and fast-scan vectors\<close>
  "block_corners p g =
     [p,
      add2 p (scale2 (fs_vec_yx g) (fs_pixels_yx g)),
      add2 (add2 p (scale2 (ss_vec_yx g) (ss_pixels_yx g))) (scale2 (fs_vec_yx g) (fs_pixels_yx g)),
      add2 p (scale2 (ss_vec_yx g) (ss_pixels_yx g))]"

definition min_axis0 :: "ivec2 list \<Rightarrow> ivec2" where
  \<comment> \<open>\<open>corners.min(axis=0)\<close> of a non-empty stack of pairs\<close>
  "min_axis0 cs = fold min2 (tl cs) (hd cs)"

definition max_axis0 :: "ivec2 list \<Rightarrow> ivec2" where
  \<comment> \<open>\<open>corners.max(axis=0)\<close> of a non-empty stack of pairs\<close>
  "max_axis0 cs = fold max2 (tl cs) (hd cs)"

text \<open>Bounding rectangles \<open>(min_x, min_y, max_x, max_y)\<close>, in the lab frame's x and y.\<close>

type_synonym bbox = "rat \<times> rat \<times> rat \<times> rat"

definition rmin_list :: "rat list \<Rightarrow> rat" where
  "rmin_list xs = fold min (tl xs) (hd xs)"

definition rmax_list :: "rat list \<Rightarrow> rat" where
  "rmax_list xs = fold max (tl xs) (hd xs)"

definition polygon_bbox :: "fragment \<Rightarrow> bbox" where
  \<comment> \<open>of the polygon \<open>corners()[:, :2]\<close>\<close>
  "polygon_bbox f =
     (let xs = map (\<lambda>c. fst (xy c)) (corners f); ys = map (\<lambda>c. snd (xy c)) (corners f)
      in (rmin_list xs, rmin_list ys, rmax_list xs, rmax_list ys))"

definition grid_bbox :: "grid_fragment \<Rightarrow> bbox" where
  \<comment> \<open>of the placement rectangle \<open>corner_idx .. opp_corner_idx\<close>, which is in (y, x)\<close>
  "grid_bbox g =
     (of_int (snd (corner_idx g)), of_int (fst (corner_idx g)),
      of_int (snd (opp_corner_idx g)), of_int (fst (opp_corner_idx g)))"

definition bbox_within :: "rat \<Rightarrow> bbox \<Rightarrow> bbox \<Rightarrow> bool" where
  "bbox_within d a b \<longleftrightarrow>
     (case a of (ax0, ay0, ax1, ay1) \<Rightarrow> case b of (bx0, by0, bx1, by1) \<Rightarrow>
        \<bar>ax0 - bx0\<bar> \<le> d \<and> \<bar>ay0 - by0\<bar> \<le> d \<and> \<bar>ax1 - bx1\<bar> \<le> d \<and> \<bar>ay1 - by1\<bar> \<le> d)"

definition round_abs :: "vec2 \<Rightarrow> ivec2" where
  \<comment> \<open>the absolute rounded vector, in unbounded integers\<close>
  "round_abs v = (\<bar>around (fst v)\<bar>, \<bar>around (snd v)\<bar>)"

definition rounds_in_int32 :: "vec2 \<Rightarrow> bool" where
  "rounds_in_int32 v \<longleftrightarrow> int32_range (around (fst v)) \<and> int32_range (around (snd v))"

definition fits_int32 :: "fragment \<Rightarrow> bool" where
  \<comment> \<open>the rounded corner, the pixel extents and their negatives, and the rounded corner
      moved back by either extent all fit 32 bits: no conversion, product or sum of the
      snapping leaves the range\<close>
  "fits_int32 f \<longleftrightarrow>
     rounds_in_int32 (xy (corner_pos f))
     \<and> int32_range (ss_pixels f) \<and> int32_range (fs_pixels f)
     \<and> int32_range (- ss_pixels f) \<and> int32_range (- fs_pixels f)
     \<and> int32_range (around (fst (xy (corner_pos f))) - ss_pixels f)
     \<and> int32_range (around (fst (xy (corner_pos f))) - fs_pixels f)
     \<and> int32_range (around (snd (xy (corner_pos f))) - ss_pixels f)
     \<and> int32_range (around (snd (xy (corner_pos f))) - fs_pixels f)"

definition tilt_x :: "fragment \<Rightarrow> rat" where
  \<comment> \<open>how far, along x, rounding the two direction vectors can move a corner of the tile\<close>
  "tilt_x f =
     of_int (ss_pixels f) * \<bar>fst (xy (ss_vec f)) - of_int (around (fst (xy (ss_vec f))))\<bar>
     + of_int (fs_pixels f) * \<bar>fst (xy (fs_vec f)) - of_int (around (fst (xy (fs_vec f))))\<bar>"

definition tilt_y :: "fragment \<Rightarrow> rat" where
  \<comment> \<open>the same along y\<close>
  "tilt_y f =
     of_int (ss_pixels f) * \<bar>snd (xy (ss_vec f)) - of_int (around (snd (xy (ss_vec f))))\<bar>
     + of_int (fs_pixels f) * \<bar>snd (xy (fs_vec f)) - of_int (around (snd (xy (fs_vec f))))\<bar>"

definition tilt :: "fragment \<Rightarrow> rat" where
  "tilt f = max (tilt_x f) (tilt_y f)"

subsection \<open>Example fragments\<close>

definition rotated_fragment :: fragment where
  \<comment> \<open>a tile of quadrant 3 of the AGIPD layout, off the grid by a fraction of a pixel\<close>
  "rotated_fragment =
     \<lparr>corner_pos = (5204 / 10, - 1603 / 10, 0), ss_vec = (- 1, 0, 0), fs_vec = (0, 1, 0),
      ss_pixels = 64, fs_pixels = 128\<rparr>"

definition rotated_fragment_snapped :: grid_fragment where
  "rotated_fragment_snapped =
     \<lparr>ss_vec_yx = (0, - 1), fs_vec_yx = (1, 0), ss_pixels_yx = 64, fs_pixels_yx = 128,
      transposed = True, ss_order = - 1, fs_order = 1,
      pixel_dims = (128, 64), corner_idx = (- 160, 456), opp_corner_idx = (- 32, 520)\<rparr>"

definition tilted_fragment :: fragment where
  \<comment> \<open>in-plane slow-scan vector (0.9, 0.2)\<close>
  "tilted_fragment =
     \<lparr>corner_pos = (0, 0, 0), ss_vec = (9 / 10, 1 / 5, 0), fs_vec = (0, 1, 0),
      ss_pixels = 64, fs_pixels = 128\<rparr>"

definition tilted_fragment_snapped :: grid_fragment where
  "tilted_fragment_snapped =
     \<lparr>ss_vec_yx = (0, 1), fs_vec_yx = (1, 0), ss_pixels_yx = 64, fs_pixels_yx = 128,
      transposed = True, ss_order = 1, fs_order = 1,
      pixel_dims = (128, 64), corner_idx = (0, 0), opp_corner_idx = (128, 64)\<rparr>"

definition turned_fragment :: fragment where
  \<comment> \<open>unit vectors turned by about 16 degrees: (0.96, 0.28) and (-0.28, 0.96)\<close>
  "turned_fragment =
     \<lparr>corner_pos = (0, 0, 0), ss_vec = (24 / 25, 7 / 25, 0), fs_vec = (- 7 / 25, 24 / 25, 0),
      ss_pixels = 64, fs_pixels = 128\<rparr>"

definition turned_fragment_snapped :: grid_fragment where
  "turned_fragment_snapped =
     \<lparr>ss_vec_yx = (0, 1), fs_vec_yx = (1, 0), ss_pixels_yx = 64, fs_pixels_yx = 128,
      transposed = True, ss_order = 1, fs_order = 1,
      pixel_dims = (128, 64), corner_idx = (0, 0), opp_corner_idx = (128, 64)\<rparr>"

definition far_fragment :: fragment where
  \<comment> \<open>a tile near the lower end of the 32-bit range, both directions negative\<close>
  "far_fragment =
     \<lparr>corner_pos = (- 2147483600, - 2147483600, 0), ss_vec = (- 1, 0, 0), fs_vec = (0, - 1, 0),
      ss_pixels = 64, fs_pixels = 128\<rparr>"

definition slanted_fragment :: fragment where
  \<comment> \<open>direction vectors (0.999, 0.001) and (-0.001, 0.999): a tilt of 0.192 pixels\<close>
  "slanted_fragment =
     \<lparr>corner_pos = (103 / 10, - 204 / 10, 0), ss_vec = (999 / 1000, 1 / 1000, 0),
      fs_vec = (- 1 / 1000, 999 / 1000, 0), ss_pixels = 64, fs_pixels = 128\<rparr>"

definition slanted_fragment_snapped :: grid_fragment where
  "slanted_fragment_snapped =
     \<lparr>ss_vec_yx = (0, 1), fs_vec_yx = (1, 0), ss_pixels_yx = 64, fs_pixels_yx = 128,
      transposed = True, ss_order = 1, fs_order = 1,
      pixel_dims = (128, 64), corner_idx = (- 20, 10), opp_corner_idx = (108, 74)\<rparr>"

subsection \<open>Arrays\<close>

text \<open>
  A numpy array is its shape and its elements, read by a full index. Views (slices, steps,
  swapped axes) are arrays whose reader redirects the index, as numpy's strides do.
  Indices outside the shape are never read by the code below.
\<close>

record 'a ndarray =
  shape :: "nat list"
  item :: "nat list \<Rightarrow> 'a"

definition ebind :: "error + 'a \<Rightarrow> ('a \<Rightarrow> error + 'b) \<Rightarrow> error + 'b" where
  \<comment> \<open>sequencing of steps that may raise\<close>
  "ebind m k = (case m of Inl e \<Rightarrow> Inl e | Inr a \<Rightarrow> k a)"

definition trailing :: "nat \<Rightarrow> 'b list \<Rightarrow> 'b list" where
  \<comment> \<open>\<open>t[-n:]\<close>: the last \<open>n\<close> entries, all of them when there are fewer\<close>
  "trailing n xs = drop (length xs - n) xs"

definition leading :: "nat \<Rightarrow> 'b list \<Rightarrow> 'b list" where
  \<comment> \<open>\<open>t[:-n]\<close>: all but the last \<open>n\<close> entries\<close>
  "leading n xs = take (length xs - n) xs"

definition np_full :: "nat list \<Rightarrow> 'a \<Rightarrow> 'a ndarray" where
  "np_full sh v = \<lparr>shape = sh, item = (\<lambda>idx. v)\<rparr>"

definition take_module :: "'a ndarray \<Rightarrow> nat \<Rightarrow> error + 'a ndarray" where
  \<comment> \<open>\<open>data[..., i, :, :]\<close>\<close>
  "take_module data i =
     (let nd = length (shape data) in
      if nd < 3 then Inl IndexError
      else let k = nd - 3 in
        if shape data ! k \<le> i then Inl IndexError
        else Inr \<lparr>shape = take k (shape data) @ drop (Suc k) (shape data),
                  item = (\<lambda>idx. item data (take k idx @ [i] @ drop k idx))\<rparr>)"

definition np_split :: "'a ndarray \<Rightarrow> nat \<Rightarrow> nat \<Rightarrow> error + 'a ndarray list" where
  \<comment> \<open>\<open>np.split(arr, n, axis=-ax)\<close>: \<open>n\<close> equal sections along the axis counted from the end\<close>
  "np_split arr n ax =
     (let nd = length (shape arr) in
      if nd < ax then Inl IndexError
      else let k = nd - ax; len = shape arr ! k in
        if len mod n \<noteq> 0 then Inl ValueError
        else Inr (map (\<lambda>s. \<lparr>shape = (shape arr)[k := len div n],
                              item = (\<lambda>idx. item arr (idx[k := idx ! k + s * (len div n)]))\<rparr>)
                      [0..<n]))"

definition slice_len :: "int \<Rightarrow> nat \<Rightarrow> nat" where
  \<comment> \<open>number of entries of \<open>[::step]\<close> on an axis of length \<open>n\<close>\<close>
  "slice_len step n = (n + nat \<bar>step\<bar> - 1) div nat \<bar>step\<bar>"

definition slice_src :: "int \<Rightarrow> nat \<Rightarrow> nat \<Rightarrow> nat" where
  \<comment> \<open>the source position of entry \<open>j\<close> of \<open>[::step]\<close>: from the start for a positive
      step, from the end for a negative one\<close>
  "slice_src step n j = (if 0 < step then j * nat step else n - 1 - j * nat (- step))"

definition step_axis :: "'a ndarray \<Rightarrow> int \<Rightarrow> nat \<Rightarrow> error + 'a ndarray" where
  \<comment> \<open>\<open>arr[..., ::step]\<close> (\<open>ax = 1\<close>) or \<open>arr[..., ::step, :]\<close> (\<open>ax = 2\<close>)\<close>
  "step_axis arr step ax =
     (let nd = length (shape arr) in
      if nd < ax then Inl IndexError
      else if step = 0 then Inl ValueError
      else let k = nd - ax; len = shape arr ! k in
        Inr \<lparr>shape = (shape arr)[k := slice_len step len],
             item = (\<lambda>idx. item arr (idx[k := slice_src step len (idx ! k)]))\<rparr>)"

definition swap_last2 :: "'b list \<Rightarrow> 'b list" where
  "swap_last2 xs = (let n = length xs in leading 2 xs @ [xs ! (n - 1), xs ! (n - 2)])"

definition swapaxes :: "'a ndarray \<Rightarrow> error + 'a ndarray" where
  \<comment> \<open>\<open>arr.swapaxes(-1, -2)\<close>\<close>
  "swapaxes arr =
     (if length (shape arr) < 2 then Inl ValueError
      else Inr \<lparr>shape = swap_last2 (shape arr), item = (\<lambda>idx. item arr (swap_last2 idx))\<rparr>)"

definition transform :: "grid_fragment \<Rightarrow> 'a ndarray \<Rightarrow> error + 'a ndarray" where
  \<comment> \<open>the closure stored by \<open>GridGeometryFragment.__init__\<close>\<close>
  "transform g arr =
     (if transposed g
      then ebind (swapaxes arr) (\<lambda>a. ebind (step_axis a (fs_order g) 2) (\<lambda>b. step_axis b (ss_order g) 1))
      else ebind (step_axis arr (ss_order g) 2) (\<lambda>b. step_axis b (fs_order g) 1))"

definition slice_bound :: "int \<Rightarrow> nat \<Rightarrow> nat" where
  \<comment> \<open>a slice bound on an axis of length \<open>n\<close>: negative bounds count from the end, and
      every bound is clipped to the axis\<close>
  "slice_bound i n = (if i < 0 then nat (max 0 (i + int n)) else min (nat i) n)"

fun bc_rev :: "nat list \<Rightarrow> nat list \<Rightarrow> bool" where
  "bc_rev [] ts = True"
| "bc_rev (v # vs) [] = (v = 1 \<and> bc_rev vs [])"
| "bc_rev (v # vs) (t # ts) = ((v = t \<or> v = 1) \<and> bc_rev vs ts)"

definition broadcastable :: "nat list \<Rightarrow> nat list \<Rightarrow> bool" where
  \<comment> \<open>a value of shape \<open>vs\<close> can be assigned to a target of shape \<open>ts\<close>: aligned from the
      right, each axis of the value has the target's length or length 1\<close>
  "broadcastable vs ts = bc_rev (rev vs) (rev ts)"

definition bc_index :: "nat list \<Rightarrow> nat list \<Rightarrow> nat list" where
  \<comment> \<open>the index into the value that a target index reads\<close>
  "bc_index vs idx =
     map (\<lambda>(v, i). if v = 1 then 0 else i)
         (zip vs (replicate (length vs - length idx) 0 @ trailing (length vs) idx))"

definition slice_range :: "int \<Rightarrow> int \<Rightarrow> nat \<Rightarrow> nat \<times> nat" where
  \<comment> \<open>first index and end of the slice \<open>y:y+h\<close> on an axis of length \<open>n\<close>\<close>
  "slice_range y h n = (slice_bound y n, slice_bound (y + h) n)"

definition setitem_yx ::
  "'a ndarray \<Rightarrow> int \<times> int \<Rightarrow> int \<times> int \<Rightarrow> 'a ndarray \<Rightarrow> error + 'a ndarray" where
  \<comment> \<open>\<open>out[..., y:y+h, x:x+w] = value\<close>\<close>
  "setitem_yx out yx hw val =
     (let sh = shape out; nd = length sh in
      if nd < 2 then Inl IndexError
      else
        let rows = slice_range (fst yx) (fst hw) (sh ! (nd - 2));
            cols = slice_range (snd yx) (snd hw) (sh ! (nd - 1));
            target = leading 2 sh @ [snd rows - fst rows, snd cols - fst cols]
        in if \<not> broadcastable (shape val) target then Inl ValueError
           else Inr \<lparr>shape = sh,
                     item = (\<lambda>idx.
                        let r = idx ! (nd - 2); c = idx ! (nd - 1) in
                        if fst rows \<le> r \<and> r < snd rows \<and> fst cols \<le> c \<and> c < snd cols
                        then item val (bc_index (shape val)
                                         (leading 2 idx @ [r - fst rows, c - fst cols]))
                        else item out idx)\<rparr>)"

subsection \<open>Detectors and the snapped geometry\<close>

datatype detector = AGIPD_1M | LPD_1M

fun expected_data_shape :: "detector \<Rightarrow> nat list" where
  "expected_data_shape AGIPD_1M = [16, 512, 128]"
| "expected_data_shape LPD_1M = [16, 256, 256]"

fun frag_ss_pixels :: "detector \<Rightarrow> int" where
  "frag_ss_pixels AGIPD_1M = 64"
| "frag_ss_pixels LPD_1M = 32"

fun frag_fs_pixels :: "detector \<Rightarrow> int" where
  "frag_fs_pixels AGIPD_1M = 128"
| "frag_fs_pixels LPD_1M = 128"

fun pixel_size :: "detector \<Rightarrow> rat" where
  "pixel_size AGIPD_1M = 2 / 10000"
| "pixel_size LPD_1M = 5 / 10000"

fun split_tiles :: "detector \<Rightarrow> 'a ndarray \<Rightarrow> error + 'a ndarray list" where
  "split_tiles AGIPD_1M module_data = np_split module_data 8 2"
| "split_tiles LPD_1M module_data =
     ebind (np_split module_data 2 1) (\<lambda>halves.
       ebind (np_split (halves ! 0) 8 2) (\<lambda>l.
         ebind (np_split (halves ! 1) 8 2) (\<lambda>r. Inr (rev l @ r))))"

fun tiles_per_module :: "detector \<Rightarrow> nat" where
  "tiles_per_module AGIPD_1M = 8"
| "tiles_per_module LPD_1M = 16"

record snapped_geometry =
  sg_modules :: "grid_fragment list list"
  sg_geom :: detector

definition all_corners :: "grid_fragment list \<Rightarrow> ivec2 list" where
  \<comment> \<open>the list \<open>corners\<close> that \<open>_get_dimensions\<close> collects over all tiles\<close>
  "all_corners ts = concat (map (\<lambda>tile. [corner_idx tile, opp_corner_idx tile]) ts)"

definition get_dimensions_snapped :: "grid_fragment list list \<Rightarrow> error + (ivec2 \<times> ivec2)" where
  \<comment> \<open>\<open>SnappedGeometry._get_dimensions\<close>; \<open>np.stack\<close> raises on an empty list\<close>
  "get_dimensions_snapped mods =
     (let cs = all_corners (concat mods) in
      if cs = [] then Inl ValueError
      else let min_yx = min_axis0 cs; max_yx = max_axis0 cs;
               size = sub2 max_yx min_yx; centre = neg2 min_yx
           in Inr (size, centre))"

fun place_tiles ::
  "ivec2 \<Rightarrow> 'a ndarray list \<Rightarrow> nat \<Rightarrow> grid_fragment list \<Rightarrow> 'a ndarray \<Rightarrow> error + 'a ndarray" where
  \<comment> \<open>the loop over \<open>enumerate(module)\<close>, from tile number \<open>j\<close> on\<close>
  "place_tiles centre tiles_data j [] out = Inr out"
| "place_tiles centre tiles_data j (tile # rest) out =
     (if length tiles_data \<le> j then Inl IndexError
      else ebind (transform tile (tiles_data ! j)) (\<lambda>v.
             ebind (setitem_yx out (add2 (corner_idx tile) centre) (pixel_dims tile) v)
               (place_tiles centre tiles_data (Suc j) rest)))"

fun place_modules ::
  "detector \<Rightarrow> ivec2 \<Rightarrow> 'a ndarray \<Rightarrow> nat \<Rightarrow> grid_fragment list list \<Rightarrow> 'a ndarray
     \<Rightarrow> error + 'a ndarray" where
  \<comment> \<open>the loop over \<open>enumerate(self.modules)\<close>, from module number \<open>i\<close> on\<close>
  "place_modules det centre data i [] out = Inr out"
| "place_modules det centre data i (m # rest) out =
     ebind (take_module data i) (\<lambda>mod_data.
       ebind (split_tiles det mod_data) (\<lambda>tiles_data.
         ebind (place_tiles centre tiles_data 0 m out)
           (place_modules det centre data (Suc i) rest)))"

definition position_modules ::
  "'a \<Rightarrow> snapped_geometry \<Rightarrow> 'a ndarray \<Rightarrow> error + ('a ndarray \<times> ivec2)" where
  \<comment> \<open>\<open>SnappedGeometry.position_modules\<close>; \<open>nan\<close> is the fill value of the data's type\<close>
  "position_modules nan sg data =
     (if trailing 3 (shape data) \<noteq> expected_data_shape (sg_geom sg) then Inl AssertionError
      else ebind (get_dimensions_snapped (sg_modules sg)) (\<lambda>(size_yx, centre).
        if fst size_yx < 0 \<or> snd size_yx < 0 then Inl ValueError
        else
          let out = np_full (leading 3 (shape data) @ [nat (fst size_yx), nat (snd size_yx)]) nan
          in ebind (place_modules (sg_geom sg) centre data 0 (sg_modules sg) out)
               (\<lambda>out'. Inr (out', centre))))"

subsection \<open>The geometry object and its cache\<close>

fun snap_tiles :: "fragment list \<Rightarrow> error + grid_fragment list" where
  \<comment> \<open>\<open>[t.snap() for t in module]\<close>\<close>
  "snap_tiles [] = Inr []"
| "snap_tiles (t # ts) = ebind (snap t) (\<lambda>g. ebind (snap_tiles ts) (\<lambda>gs. Inr (g # gs)))"

fun snap_modules :: "fragment list list \<Rightarrow> error + grid_fragment list list" where
  "snap_modules [] = Inr []"
| "snap_modules (m # ms) =
     ebind (snap_tiles m) (\<lambda>g. ebind (snap_modules ms) (\<lambda>gs. Inr (g # gs)))"

record geometry =
  detector_of :: detector
  modules :: "fragment list list"
  snapped_cache :: "snapped_geometry option"

definition new_geometry :: "detector \<Rightarrow> fragment list list \<Rightarrow> geometry" where
  \<comment> \<open>\<open>DetectorGeometryBase.__init__\<close>\<close>
  "new_geometry det mods = \<lparr>detector_of = det, modules = mods, snapped_cache = None\<rparr>"

definition snapped :: "geometry \<Rightarrow> (error + snapped_geometry) \<times> geometry" where
  \<comment> \<open>\<open>_snapped\<close>: the result and the geometry object afterwards\<close>
  "snapped geom =
     (case snapped_cache geom of
        None \<Rightarrow>
          (case snap_modules (modules geom) of
             Inl e \<Rightarrow> (Inl e, geom)
           | Inr new_modules \<Rightarrow>
               (let sg = \<lparr>sg_modules = new_modules, sg_geom = detector_of geom\<rparr>
                in (Inr sg, geom\<lparr>snapped_cache := Some sg\<rparr>)))
      | Some sg \<Rightarrow> (Inr sg, geom))"

definition position_modules_fast ::
  "'a \<Rightarrow> geometry \<Rightarrow> 'a ndarray \<Rightarrow> (error + ('a ndarray \<times> ivec2)) \<times> geometry" where
  "position_modules_fast nan geom data =
     (case snapped geom of
        (Inl e, geom') \<Rightarrow> (Inl e, geom')
      | (Inr sg, geom') \<Rightarrow> (position_modules nan sg data, geom'))"

definition fresh_assembly ::
  "'a \<Rightarrow> geometry \<Rightarrow> 'a ndarray \<Rightarrow> error + ('a ndarray \<times> ivec2)" where
  \<comment> \<open>assembly through a snapped layout computed now, without reading or writing the cache\<close>
  "fresh_assembly nan geom data =
     (case snap_modules (modules geom) of
        Inl e \<Rightarrow> Inl e
      | Inr new_modules \<Rightarrow>
          position_modules nan \<lparr>sg_modules = new_modules, sg_geom = detector_of geom\<rparr> data)"

definition cache_ok :: "geometry \<Rightarrow> bool" where
  \<comment> \<open>the cache is empty or holds the snapped layout of the geometry's own modules; so it
      is after \<open>__init__\<close> and after every call of \<open>_snapped\<close>, the only code that
      assigns it\<close>
  "cache_ok geom =
     (case snapped_cache geom of
        None \<Rightarrow> True
      | Some sg \<Rightarrow> snap_modules (modules geom) = Inr (sg_modules sg)
                  \<and> sg_geom sg = detector_of geom)"

definition well_formed :: "detector \<Rightarrow> fragment list list \<Rightarrow> bool" where
  \<comment> \<open>a geometry of the detector's kind: at most as many modules as the raw data has, at
      most the detector's number of tiles in each, at least one tile, and every tile of
      the detector's tile extents\<close>
  "well_formed det mods \<longleftrightarrow>
     length mods \<le> hd (expected_data_shape det)
     \<and> (\<forall>m \<in> set mods. length m \<le> tiles_per_module det)
     \<and> concat mods \<noteq> []
     \<and> (\<forall>f \<in> set (concat mods).
           ss_pixels f = frag_ss_pixels det \<and> fs_pixels f = frag_fs_pixels det)"

subsection \<open>AGIPD-1M: the idealised layout\<close>

definition quads_x_orientation :: "int list" where
  "quads_x_orientation = [1, 1, - 1, - 1]"

definition quads_y_orientation :: "int list" where
  "quads_y_orientation = [- 1, - 1, 1, 1]"

definition agipd_tile :: "vec2 list \<Rightarrow> rat \<Rightarrow> rat \<Rightarrow> nat \<Rightarrow> nat \<Rightarrow> fragment" where
  \<comment> \<open>the fragment that the loop body of \<open>from_quad_positions\<close> appends for module \<open>p\<close>,
      tile \<open>a\<close>\<close>
  "agipd_tile quad_pos asic_gap panel_gap p a =
     (let quad = p div 4;
          quad_corner = quad_pos ! quad;
          x_orient = quads_x_orientation ! quad;
          y_orient = quads_y_orientation ! quad;
          p_in_quad = p mod 4;
          corner_y = snd quad_corner - of_nat p_in_quad * (128 + panel_gap);
          corner_x = fst quad_corner + of_int x_orient * (64 + asic_gap) * of_nat a
      in \<lparr>corner_pos = (corner_x, corner_y, 0),
           ss_vec = (of_int x_orient, 0, 0),
           fs_vec = (0, of_int y_orient, 0),
           ss_pixels = frag_ss_pixels AGIPD_1M,
           fs_pixels = frag_fs_pixels AGIPD_1M\<rparr>)"

definition from_quad_positions :: "vec2 list \<Rightarrow> rat \<Rightarrow> rat \<Rightarrow> error + geometry" where
  \<comment> \<open>\<open>AGIPD_1MGeometry.from_quad_positions\<close>; \<open>quad_pos[quad]\<close> raises when fewer than four
      positions are given\<close>
  "from_quad_positions quad_pos asic_gap panel_gap =
     (if length quad_pos < 4 then Inl IndexError
      else Inr (new_geometry AGIPD_1M
                  (map (\<lambda>p. map (agipd_tile quad_pos asic_gap panel_gap p) [0..<8]) [0..<16])))"

definition tile_at :: "geometry \<Rightarrow> nat \<Rightarrow> nat \<Rightarrow> fragment" where
  \<comment> \<open>\<open>geom.modules[p][a]\<close>, for indices in range\<close>
  "tile_at geom p a = modules geom ! p ! a"

subsection \<open>AGIPD-1M: the interpolating assembler\<close>

definition truncate :: "rat \<Rightarrow> int" where
  \<comment> \<open>\<open>.astype(int)\<close> on a float: towards zero\<close>
  "truncate x = (if 0 \<le> x then \<lfloor>x\<rfloor> else \<lceil>x\<rceil>)"

definition get_dimensions :: "fragment list list \<Rightarrow> error + (ivec2 \<times> ivec2)" where
  \<comment> \<open>\<open>AGIPD_1MGeometry._get_dimensions\<close>; \<open>np.concatenate\<close> raises on an empty list\<close>
  "get_dimensions mods =
     (let cs = map xy (concat (map corners (concat mods))) in
      if cs = [] then Inl ValueError
      else
        let xs = map fst cs; ys = map snd cs;
            min_xy = (truncate (rmin_list xs) - 1, truncate (rmin_list ys) - 1);
            max_xy = (truncate (rmax_list xs) + 1, truncate (rmax_list ys) + 1);
            size = sub2 max_xy min_xy;
            centre = neg2 min_xy
        in Inr (rev2 size, rev2 centre))"

type_synonym mat2 = "vec2 \<times> vec2"

definition np_linalg_inv :: "mat2 \<Rightarrow> error + mat2" where
  \<comment> \<open>rows \<open>(a, b)\<close> and \<open>(c, d)\<close>\<close>
  "np_linalg_inv m =
     (case m of ((a, b), (c, d)) \<Rightarrow>
        let det = a * d - b * c in
        if det = 0 then Inl LinAlgError
        else Inr ((d / det, - b / det), (- c / det, a / det)))"

definition mat_vec :: "mat2 \<Rightarrow> vec2 \<Rightarrow> vec2" where
  "mat_vec m v = (case m of ((a, b), (c, d)) \<Rightarrow> (a * fst v + b * snd v, c * fst v + d * snd v))"

definition affine_transform ::
  "('a ndarray \<Rightarrow> vec2 \<Rightarrow> 'a) \<Rightarrow> 'a ndarray \<Rightarrow> mat2 \<Rightarrow> vec2 \<Rightarrow> nat list \<Rightarrow> 'a ndarray" where
  \<comment> \<open>\<open>scipy.ndimage.affine_transform\<close>: the output at \<open>pos\<close> is the input sampled at
      \<open>matrix pos + offset\<close>. The sampler (spline interpolation, the fill value outside the
      input) is scipy's and is a parameter here.\<close>
  "affine_transform sample input matrix offset output_shape =
     \<lparr>shape = output_shape,
      item = (\<lambda>idx.
         let pos = (of_nat (idx ! 0), of_nat (idx ! 1)); q = mat_vec matrix pos
         in sample input (fst q + fst offset, snd q + snd offset))\<rparr>"

fun interpolate_tiles ::
  "('a ndarray \<Rightarrow> vec2 \<Rightarrow> 'a) \<Rightarrow> nat list \<Rightarrow> ivec2 \<Rightarrow> 'a ndarray list \<Rightarrow> nat \<Rightarrow> nat
     \<Rightarrow> fragment list \<Rightarrow> 'a ndarray list \<Rightarrow> error + 'a ndarray list" where
  \<comment> \<open>the loop over \<open>enumerate(zip(module, tiles_data))\<close>, from tile number \<open>j\<close> on;
      \<open>zip\<close> stops at the shorter of the two\<close>
  "interpolate_tiles sample size_yx centre tiles_data i j [] tmp = Inr tmp"
| "interpolate_tiles sample size_yx centre tiles_data i j (tile # rest) tmp =
     (if length tiles_data \<le> j then Inr tmp
      else
        let fs_vec_yx = rev2 (xy (fs_vec tile));
            ss_vec_yx = rev2 (xy (ss_vec tile));
            cp = rev2 (xy (corner_pos tile));
            corner_pos_yx = (fst cp + of_int (fst centre), snd cp + of_int (snd centre));
            rotn = ((fst ss_vec_yx, fst fs_vec_yx), (snd ss_vec_yx, snd fs_vec_yx))
        in ebind (np_linalg_inv rotn) (\<lambda>inv.
             let offset = mat_vec rotn corner_pos_yx;
                 buf = affine_transform sample (tiles_data ! j) inv offset size_yx
             in interpolate_tiles sample size_yx centre tiles_data i (Suc j) rest
                  (tmp[i * 8 + j := buf])))"

fun interpolate_modules ::
  "('a ndarray \<Rightarrow> vec2 \<Rightarrow> 'a) \<Rightarrow> nat list \<Rightarrow> ivec2 \<Rightarrow> 'a ndarray \<Rightarrow> nat
     \<Rightarrow> fragment list list \<Rightarrow> 'a ndarray list \<Rightarrow> error + 'a ndarray list" where
  \<comment> \<open>the loop over \<open>enumerate(zip(self.modules, data))\<close>, from module number \<open>i\<close> on\<close>
  "interpolate_modules sample size_yx centre data i [] tmp = Inr tmp"
| "interpolate_modules sample size_yx centre data i (m # rest) tmp =
     (if hd (shape data) \<le> i then Inr tmp
      else
        let mod_data = \<lparr>shape = tl (shape data), item = (\<lambda>idx. item data (i # idx))\<rparr>
        in ebind (np_split mod_data 8 2) (\<lambda>tiles_data.
             ebind (interpolate_tiles sample size_yx centre tiles_data i 0 m tmp)
               (interpolate_modules sample size_yx centre data (Suc i) rest)))"

definition position_modules_interpolate ::
  "('a ndarray \<Rightarrow> vec2 \<Rightarrow> 'a) \<Rightarrow> ('a list \<Rightarrow> 'a) \<Rightarrow> 'a ndarray \<Rightarrow> geometry \<Rightarrow> 'a ndarray
     \<Rightarrow> error + ('a ndarray \<times> ivec2)" where
  \<comment> \<open>\<open>AGIPD_1MGeometry.position_modules_interpolate\<close>. Parameters: scipy's sampler,
      \<open>np.nanmax\<close> of a list of values, and the content of the \<open>np.empty\<close> buffers.\<close>
  "position_modules_interpolate sample nanmax uninit geom data =
     (if shape data \<noteq> [16, 512, 128] then Inl AssertionError
      else ebind (get_dimensions (modules geom)) (\<lambda>(size, centre).
        let size_yx = [nat (fst size), nat (snd size)];
            tmp = replicate (16 * 8) (uninit\<lparr>shape := size_yx\<rparr>)
        in ebind (interpolate_modules sample size_yx centre data 0 (modules geom) tmp) (\<lambda>tmp'.
             Inr (\<lparr>shape = size_yx, item = (\<lambda>idx. nanmax (map (\<lambda>b. item b idx) tmp'))\<rparr>,
                  centre))))"

subsection \<open>AGIPD-1M: the distortion array\<close>

definition corner_ss_offsets :: "rat list" where
  "corner_ss_offsets = [- 1 / 2, 1 / 2, 1 / 2, - 1 / 2]"

definition corner_fs_offsets :: "rat list" where
  "corner_fs_offsets = [- 1 / 2, - 1 / 2, 1 / 2, 1 / 2]"

definition pixel_corner :: "rat \<Rightarrow> fragment \<Rightarrow> nat \<Rightarrow> nat \<Rightarrow> nat \<Rightarrow> vec3" where
  \<comment> \<open>\<open>(corners_x, corners_y, corners_z)[i, j, k]\<close> of one tile, as the loop body computes
      them: the pixel centre first, then the corner offsets\<close>
  "pixel_corner psize tile i j k =
     (let corner = vscale (corner_pos tile) psize;
          ss_unit = vscale (ss_vec tile) psize;
          fs_unit = vscale (fs_vec tile) psize;
          pixel_centre = vadd (vadd corner (vscale ss_unit (of_nat i))) (vscale fs_unit (of_nat j))
      in vadd (vadd pixel_centre (vscale ss_unit (corner_ss_offsets ! k)))
              (vscale fs_unit (corner_fs_offsets ! k)))"

definition zyx :: "vec3 \<Rightarrow> nat \<Rightarrow> rat" where
  \<comment> \<open>the last axis of the distortion array holds z, y, x\<close>
  "zyx v c = (if c = 0 then snd (snd v) else if c = 1 then fst (snd v) else fst v)"

definition write_tile ::
  "rat \<Rightarrow> fragment \<Rightarrow> nat \<Rightarrow> rat ndarray \<Rightarrow> error + rat ndarray" where
  \<comment> \<open>\<open>distortion[tile_slice, :, :, c] = corners\<close> for the three coordinates; the 64 rows
      of corners do not broadcast to a slice of another length\<close>
  "write_tile psize tile tile_offset darr =
     (let n = hd (shape darr);
          lo = slice_bound (int tile_offset) n;
          hi = slice_bound (int tile_offset + ss_pixels tile) n
      in if hi - lo \<noteq> 64 then Inl ValueError
         else Inr (darr\<lparr>item := (\<lambda>idx.
                 if lo \<le> idx ! 0 \<and> idx ! 0 < hi
                 then zyx (pixel_corner psize tile (idx ! 0 - lo) (idx ! 1) (idx ! 2)) (idx ! 3)
                 else item darr idx)\<rparr>))"

fun distortion_tiles ::
  "rat \<Rightarrow> nat \<Rightarrow> nat \<Rightarrow> fragment list \<Rightarrow> rat ndarray \<Rightarrow> error + rat ndarray" where
  \<comment> \<open>the loop over \<open>enumerate(mod)\<close>, from tile number \<open>t\<close> on\<close>
  "distortion_tiles psize module_offset t [] darr = Inr darr"
| "distortion_tiles psize module_offset t (tile # rest) darr =
     ebind (write_tile psize tile (module_offset + t * 64) darr)
       (distortion_tiles psize module_offset (Suc t) rest)"

fun distortion_modules ::
  "rat \<Rightarrow> nat \<Rightarrow> fragment list list \<Rightarrow> rat ndarray \<Rightarrow> error + rat ndarray" where
  \<comment> \<open>the loop over \<open>enumerate(self.modules)\<close>, from module number \<open>m\<close> on\<close>
  "distortion_modules psize m [] darr = Inr darr"
| "distortion_modules psize m (md # rest) darr =
     ebind (distortion_tiles psize (m * 512) 0 md darr) (distortion_modules psize (Suc m) rest)"

definition distortion_unshifted :: "rat \<Rightarrow> fragment list list \<Rightarrow> error + rat ndarray" where
  \<comment> \<open>\<open>to_distortion_array\<close> up to, and without, the final shift of the origin\<close>
  "distortion_unshifted psize mods =
     distortion_modules psize 0 mods (np_full [8192, 128, 4, 3] 0)"

definition min_over_pixels :: "rat ndarray \<Rightarrow> nat \<Rightarrow> rat" where
  \<comment> \<open>\<open>distortion[..., c].min(axis=(0, 1, 2))\<close>\<close>
  "min_over_pixels darr c =
     rmin_list (concat (map (\<lambda>r. concat (map (\<lambda>col. map (\<lambda>k. item darr [r, col, k, c]) [0..<4])
                                              [0..<128]))
                            [0..<8192]))"

definition to_distortion_array :: "rat \<Rightarrow> fragment list list \<Rightarrow> error + rat ndarray" where
  \<comment> \<open>\<open>AGIPD_1MGeometry.to_distortion_array\<close>, with the class's \<open>pixel_size\<close> as a parameter\<close>
  "to_distortion_array psize mods =
     ebind (distortion_unshifted psize mods) (\<lambda>darr.
       let min_y = min_over_pixels darr 1; min_x = min_over_pixels darr 2
       in Inr (darr\<lparr>item := (\<lambda>idx.
                 if idx ! 3 = 1 then item darr idx - min_y
                 else if idx ! 3 = 2 then item darr idx - min_x
                 else item darr idx)\<rparr>))"

definition single_tile :: fragment where
  "single_tile =
     \<lparr>corner_pos = (0, 0, 0), ss_vec = (1, 0, 0), fs_vec = (0, 1, 0),
      ss_pixels = 64, fs_pixels = 128\<rparr>"

definition sample_quad_pos :: "vec2 list" where
  \<comment> \<open>the quadrant positions of the module's \<open>__main__\<close> block\<close>
  "sample_quad_pos = [(- 525, 625), (- 550, - 10), (520, - 160), (1085 / 2, 475)]"

definition single_tile_snapped :: grid_fragment where
  "single_tile_snapped =
     \<lparr>ss_vec_yx = (0, 1), fs_vec_yx = (1, 0), ss_pixels_yx = 64, fs_pixels_yx = 128,
      transposed = True, ss_order = 1, fs_order = 1,
      pixel_dims = (128, 64), corner_idx = (0, 0), opp_corner_idx = (128, 64)\<rparr>"

definition two_modules :: "fragment list list" where
  "two_modules = [[single_tile], [rotated_fragment]]"

definition two_modules_snapped :: "grid_fragment list list" where
  "two_modules_snapped = [[single_tile_snapped], [rotated_fragment_snapped]]"

definition sample_geometry :: geometry where
  \<comment> \<open>what \<open>from_quad_positions\<close> returns for the sample positions, gaps 2 and 29\<close>
  "sample_geometry =
     new_geometry AGIPD_1M (map (\<lambda>p. map (agipd_tile sample_quad_pos 2 29 p) [0..<8]) [0..<16])"

definition xyz_at :: "rat ndarray \<Rightarrow> nat \<Rightarrow> nat \<Rightarrow> nat \<Rightarrow> vec3" where
  \<comment> \<open>corner \<open>k\<close> of pixel \<open>(i, j)\<close> as (x, y, z), read from the (z, y, x) entries\<close>
  "xyz_at darr i j k = (item darr [i, j, k, 2], item darr [i, j, k, 1], item darr [i, j, k, 0])"

definition corner_formula :: "rat \<Rightarrow> fragment \<Rightarrow> nat \<Rightarrow> nat \<Rightarrow> nat \<Rightarrow> vec3" where
  \<comment> \<open>\<open>corner_pos + ss_index * ss_vec + fs_index * fs_vec\<close> at the pixel's index plus the
      \<open>k\<close>-th local offset, in units of the pixel size\<close>
  "corner_formula psize tile i j k =
     vscale (vadd (vadd (corner_pos tile)
                        (vscale (ss_vec tile) (of_nat i + corner_ss_offsets ! k)))
                  (vscale (fs_vec tile) (of_nat j + corner_fs_offsets ! k))) psize"

definition module_index_data :: "int ndarray" where
  \<comment> \<open>one AGIPD frame in which every pixel holds the number of its module\<close>
  "module_index_data = \<lparr>shape = [16, 512, 128], item = (\<lambda>idx. int (idx ! 0))\<rparr>"

definition inplane_det :: "fragment \<Rightarrow> rat" where
  \<comment> \<open>the determinant of \<open>rotn\<close>, the matrix whose columns are the tile's in-plane
      slow-scan and fast-scan vectors in (y, x)\<close>
  "inplane_det tile =
     snd (xy (ss_vec tile)) * fst (xy (fs_vec tile)) - snd (xy (fs_vec tile)) * fst (xy (ss_vec tile))"

definition batch_data :: "int ndarray" where
  \<comment> \<open>three AGIPD frames, every pixel holding the number of its module\<close>
  "batch_data = \<lparr>shape = [3, 16, 512, 128], item = (\<lambda>idx. int (idx ! 1))\<rparr>"

definition nearest_sample :: "int ndarray \<Rightarrow> vec2 \<Rightarrow> int" where
  \<comment> \<open>a sampler for examples: the input at the rounded position, -1 outside\<close>
  "nearest_sample input pos =
     (let r = around (fst pos); c = around (snd pos)
      in if 0 \<le> r \<and> r < int (shape input ! 0) \<and> 0 \<le> c \<and> c < int (shape input ! 1)
         then item input [nat r, nat c] else - 1)"

definition max_sample :: "int list \<Rightarrow> int" where
  \<comment> \<open>the largest of a non-empty list of samples\<close>
  "max_sample xs = fold max (tl xs) (hd xs)"

section \<open>Properties\<close>

subsection \<open>Rounding and the 32-bit conversion\<close>

lemma astype_int32_id: "int32_range n \<Longrightarrow> astype_int32 n = n"
  by (simp add: astype_int32_def)

lemma astype_int32_range: "int32_range (astype_int32 n)"
  by (simp add: astype_int32_def int32_range_def)

lemma astype_int32_small: "astype_int32 n = a \<Longrightarrow> \<bar>a\<bar> \<le> 1 \<Longrightarrow> n = a"
  by (auto simp: astype_int32_def split: if_splits)

lemma wrap_int32_id: "int32_range n \<Longrightarrow> wrap_int32 n = n"
  unfolding int32_range_def wrap_int32_def by (simp add: mod_pos_pos_trivial)

lemma np_abs32_cases:
  assumes "int32_range n"
  shows "np_abs32 n = (if n = - (2 ^ 31) then - (2 ^ 31) else \<bar>n\<bar>)"
proof (cases "n = - (2 ^ 31)")
  case True
  then show ?thesis by (simp add: np_abs32_def wrap_int32_def)
next
  case False
  with assms have "int32_range \<bar>n\<bar>" by (auto simp: int32_range_def)
  then show ?thesis using False by (simp add: np_abs32_def wrap_int32_id)
qed

lemma np_abs32_eq_0: "int32_range n \<Longrightarrow> np_abs32 n = 0 \<longleftrightarrow> n = 0"
  by (simp add: np_abs32_cases)

lemma np_abs32_eq_1: "int32_range n \<Longrightarrow> np_abs32 n = 1 \<longleftrightarrow> n = 1 \<or> n = - 1"
  by (auto simp: np_abs32_cases)

lemma around_diff: "\<bar>x - of_int (around x)\<bar> \<le> 1 / 2"
  unfolding around_def Let_def by (auto simp: abs_if) linarith+

lemma around_of_int: "around (of_int n) = n"
  unfolding around_def Let_def by simp

lemma axis_aligned_iff:
  assumes "int32_range a" "int32_range b" "int32_range c" "int32_range d"
  shows "axis_aligned (a, b) (c, d) \<longleftrightarrow>
     (\<bar>a\<bar> = 1 \<and> b = 0 \<and> c = 0 \<and> \<bar>d\<bar> = 1) \<or> (a = 0 \<and> \<bar>b\<bar> = 1 \<and> \<bar>c\<bar> = 1 \<and> d = 0)"
proof -
  have 1: "axis_aligned (a, b) (c, d) \<longleftrightarrow>
     (np_abs32 a = 1 \<and> np_abs32 b = 0 \<and> np_abs32 c = 0 \<and> np_abs32 d = 1) \<or>
     (np_abs32 a = 0 \<and> np_abs32 b = 1 \<and> np_abs32 c = 1 \<and> np_abs32 d = 0)"
    unfolding axis_aligned_def abs_tuple_def fst_conv snd_conv doubleton_eq_iff prod.inject
    by blast
  have 2: "np_abs32 a = 1 \<longleftrightarrow> \<bar>a\<bar> = 1" "np_abs32 b = 1 \<longleftrightarrow> \<bar>b\<bar> = 1"
    "np_abs32 c = 1 \<longleftrightarrow> \<bar>c\<bar> = 1" "np_abs32 d = 1 \<longleftrightarrow> \<bar>d\<bar> = 1"
    using assms by (auto simp: np_abs32_eq_1)
  show ?thesis unfolding 1 2 using assms by (simp add: np_abs32_eq_0)
qed

subsection \<open>Snapping\<close>

lemma snap_InrD:
  assumes "snap f = Inr g"
  shows "axis_aligned (around32 (xy (ss_vec f))) (around32 (xy (fs_vec f)))"
    and "GridGeometryFragment (rev2 (around32 (xy (corner_pos f))))
               (rev2 (around32 (xy (ss_vec f)))) (rev2 (around32 (xy (fs_vec f))))
               (ss_pixels f) (fs_pixels f) = Inr g"
  using assms unfolding snap_def Let_def by (auto split: if_splits)

lemma around32_aligned_cases:
  assumes "axis_aligned (around32 u) (around32 v)"
  obtains (straight) a d where "around32 u = (a, 0)" "around32 v = (0, d)" "\<bar>a\<bar> = 1" "\<bar>d\<bar> = 1"
  | (swapped) b c where "around32 u = (0, b)" "around32 v = (c, 0)" "\<bar>b\<bar> = 1" "\<bar>c\<bar> = 1"
proof -
  obtain a b c d where uv: "around32 u = (a, b)" "around32 v = (c, d)"
    by (cases "around32 u", cases "around32 v") auto
  then have r: "int32_range a" "int32_range b" "int32_range c" "int32_range d"
    unfolding around32_def by (auto simp: astype_int32_range)
  from assms axis_aligned_iff[OF r] uv
  have "(\<bar>a\<bar> = 1 \<and> b = 0 \<and> c = 0 \<and> \<bar>d\<bar> = 1) \<or> (a = 0 \<and> \<bar>b\<bar> = 1 \<and> \<bar>c\<bar> = 1 \<and> d = 0)"
    by simp
  then show thesis using uv straight swapped by auto
qed

lemma abs1_cases: "\<bar>a::int\<bar> = 1 \<Longrightarrow> a = 1 \<or> a = - 1"
  by auto

lemma times_pixels_cases:
  "times_pixels (min_order_0 ord) p = Inl OverflowError
   \<or> (\<exists>t. times_pixels (min_order_0 ord) p = Inr t)"
  by (simp add: min_order_0_def)

lemma GridGeometryFragment_not_assert:
  "GridGeometryFragment cpos ssv fsv ssp fsp \<noteq> Inl AssertionError"
  using times_pixels_cases[of "fst ssv" ssp] times_pixels_cases[of "snd fsv" fsp]
    times_pixels_cases[of "fst fsv" fsp] times_pixels_cases[of "snd ssv" ssp]
  by (auto simp: GridGeometryFragment_def Let_def split: sum.splits)

lemma GridGeometryFragment_results:
  "GridGeometryFragment cpos ssv fsv ssp fsp = Inl OverflowError
   \<or> (\<exists>g. GridGeometryFragment cpos ssv fsv ssp fsp = Inr g)"
  using times_pixels_cases[of "fst ssv" ssp] times_pixels_cases[of "snd fsv" fsp]
    times_pixels_cases[of "fst fsv" fsp] times_pixels_cases[of "snd ssv" ssp]
  by (auto simp: GridGeometryFragment_def Let_def split: sum.splits)

lemma times_pixels_fits:
  assumes "int32_range p" "int32_range (- p)" "ord = 1 \<or> ord = - 1"
  shows "times_pixels (min_order_0 ord) p =
           Inr (if 0 < ord then PyInt 0 else Int32 (min ord 0 * p))"
  using assms by (auto simp: min_order_0_def wrap_int32_id)

lemma GridGeometryFragment_Inr:
  assumes "int32_range ssp" "int32_range fsp"
  shows "\<exists>g. GridGeometryFragment cpos ssv fsv ssp fsp = Inr g"
  using assms by (auto simp: GridGeometryFragment_def Let_def min_order_0_def)

lemma add_corner_shift_fits:
  assumes "int32_range (fst c - p)" "int32_range (snd c - q)" "a = 1 \<or> a = - 1" "b = 1 \<or> b = - 1"
  shows "add_corner_shift c (if 0 < a then PyInt 0 else Int32 (min a 0 * p))
                            (if 0 < b then PyInt 0 else Int32 (min b 0 * q))
         = add2 c (min a 0 * p, min b 0 * q)"
  using assms by (auto simp: add_corner_shift_def add2_def wrap_int32_id)

lemma GridGeometryFragment_exact:
  assumes "int32_range ssp" "int32_range (- ssp)" "int32_range fsp" "int32_range (- fsp)"
    and "int32_range (fst c - ssp)" "int32_range (fst c - fsp)"
    and "int32_range (snd c - ssp)" "int32_range (snd c - fsp)"
    and "(ssv = (a, 0) \<and> fsv = (0, d)) \<or> (ssv = (0, a) \<and> fsv = (d, 0))"
    and "a = 1 \<or> a = - 1" "d = 1 \<or> d = - 1"
  shows "GridGeometryFragment c ssv fsv ssp fsp = Inr (grid_fragment_exact c ssv fsv ssp fsp)"
proof -
  note t = times_pixels_fits[OF assms(1,2)] times_pixels_fits[OF assms(3,4)]
  from assms(9) show ?thesis
  proof
    assume v: "ssv = (a, 0) \<and> fsv = (0, d)"
    show ?thesis
      using add_corner_shift_fits[OF assms(5,8,10,11)] assms(10,11)
      unfolding GridGeometryFragment_def grid_fragment_exact_def Let_def
      by (simp add: v t)
  next
    assume v: "ssv = (0, a) \<and> fsv = (d, 0)"
    show ?thesis
      using add_corner_shift_fits[OF assms(6,7,11,10)] assms(10,11)
      unfolding GridGeometryFragment_def grid_fragment_exact_def Let_def
      by (auto simp: v t)
  qed
qed

lemma snap_fits_exact:
  assumes "snap f = Inr g" "fits_int32 f"
  shows "g = grid_fragment_exact (rev2 (around32 (xy (corner_pos f))))
               (rev2 (around32 (xy (ss_vec f)))) (rev2 (around32 (xy (fs_vec f))))
               (ss_pixels f) (fs_pixels f)"
proof -
  note d = snap_InrD[OF assms(1)]
  from assms(2) have c: "around32 (xy (corner_pos f))
      = (around (fst (xy (corner_pos f))), around (snd (xy (corner_pos f))))"
    by (simp add: fits_int32_def rounds_in_int32_def around32_def astype_int32_id)
  from d(1) have "GridGeometryFragment (rev2 (around32 (xy (corner_pos f))))
               (rev2 (around32 (xy (ss_vec f)))) (rev2 (around32 (xy (fs_vec f))))
               (ss_pixels f) (fs_pixels f)
       = Inr (grid_fragment_exact (rev2 (around32 (xy (corner_pos f))))
               (rev2 (around32 (xy (ss_vec f)))) (rev2 (around32 (xy (fs_vec f))))
               (ss_pixels f) (fs_pixels f))"
  proof (cases rule: around32_aligned_cases)
    case (straight a d')
    then have o: "a = 1 \<or> a = - 1" "d' = 1 \<or> d' = - 1" by (auto dest: abs1_cases)
    show ?thesis
      using assms(2) unfolding c straight rev2_def fst_conv snd_conv
      by (intro GridGeometryFragment_exact[where a = a and d = d'] o)
        (simp_all add: fits_int32_def)
  next
    case (swapped b c')
    then have o: "b = 1 \<or> b = - 1" "c' = 1 \<or> c' = - 1" by (auto dest: abs1_cases)
    show ?thesis
      using assms(2) unfolding c swapped rev2_def fst_conv snd_conv
      by (intro GridGeometryFragment_exact[where a = b and d = c'] o)
        (simp_all add: fits_int32_def)
  qed
  with d(2) show ?thesis by simp
qed

text \<open>
  Outside the 32-bit range the descriptor is not the exact one: with both directions
  negative the corner shift is an int32 array and the sum wraps, and an extent that does
  not fit 32 bits raises when it meets an int32 order.
\<close>

lemma snap_far_fragment_wraps:
  "map_sum id corner_idx (snap far_fragment) = Inr (2147483568, 2147483632)"
  by code_simp

lemma snap_large_extent_raises:
  "snap (far_fragment\<lparr>corner_pos := (0, 0, 0), ss_pixels := 2147483648\<rparr>) = Inl OverflowError"
  by code_simp

subsection \<open>Snapped modules and canvas dimensions\<close>

lemma ebind_Inr_iff: "ebind m k = Inr r \<longleftrightarrow> (\<exists>a. m = Inr a \<and> k a = Inr r)"
  by (cases m) (simp_all add: ebind_def)

lemma ebind_Inr [simp]: "ebind (Inr a) k = k a"
  by (simp add: ebind_def)

lemma ebind_Inl [simp]: "ebind (Inl e) k = Inl e"
  by (simp add: ebind_def)

lemma snap_tiles_rel: "snap_tiles fs = Inr gs \<Longrightarrow> list_all2 (\<lambda>f g. snap f = Inr g) fs gs"
  by (induction fs arbitrary: gs) (auto simp: ebind_Inr_iff)

lemma snap_modules_rel:
  "snap_modules ms = Inr gss \<Longrightarrow> list_all2 (list_all2 (\<lambda>f g. snap f = Inr g)) ms gss"
  by (induction ms arbitrary: gss) (auto simp: ebind_Inr_iff dest: snap_tiles_rel)

lemma list_all2_mem:
  "list_all2 P xs ys \<Longrightarrow> y \<in> set ys \<Longrightarrow> \<exists>x \<in> set xs. P x y"
  by (induction rule: list_all2_induct) auto

lemma list_all2_concat_mem:
  assumes "list_all2 (list_all2 P) xss yss" "y \<in> set (concat yss)"
  shows "\<exists>x \<in> set (concat xss). P x y"
proof -
  from assms(2) obtain ys where ys: "ys \<in> set yss" "y \<in> set ys" by auto
  from list_all2_mem[OF assms(1) ys(1)] obtain xs where xs: "xs \<in> set xss" "list_all2 P xs ys"
    by blast
  from list_all2_mem[OF xs(2) ys(2)] xs(1) show ?thesis by auto
qed

lemma snapped_tile_origin:
  assumes "snap_modules ms = Inr gss" "g \<in> set (concat gss)"
  shows "\<exists>f \<in> set (concat ms). snap f = Inr g"
  using list_all2_concat_mem[OF snap_modules_rel[OF assms(1)] assms(2)] .

lemma list_all2_concat_nonempty:
  "list_all2 (list_all2 P) xss yss \<Longrightarrow> concat xss \<noteq> [] \<Longrightarrow> concat yss \<noteq> []"
  by (induction rule: list_all2_induct) (auto dest: list_all2_lengthD)

lemma fold_min2_fst: "fst (fold min2 xs a) = fold min (map fst xs) (fst a)"
  by (induction xs arbitrary: a) (simp_all add: min2_def min.commute)

lemma fold_min2_snd: "snd (fold min2 xs a) = fold min (map snd xs) (snd a)"
  by (induction xs arbitrary: a) (simp_all add: min2_def min.commute)

lemma fold_max2_fst: "fst (fold max2 xs a) = fold max (map fst xs) (fst a)"
  by (induction xs arbitrary: a) (simp_all add: max2_def max.commute)

lemma fold_max2_snd: "snd (fold max2 xs a) = fold max (map snd xs) (snd a)"
  by (induction xs arbitrary: a) (simp_all add: max2_def max.commute)

lemma min_axis0_Min:
  assumes "cs \<noteq> []"
  shows "fst (min_axis0 cs) = Min (fst ` set cs)" "snd (min_axis0 cs) = Min (snd ` set cs)"
proof -
  obtain c cs' where cs: "cs = c # cs'" using assms by (cases cs) auto
  show "fst (min_axis0 cs) = Min (fst ` set cs)"
    unfolding cs min_axis0_def using Min.set_eq_fold[of "fst c" "map fst cs'"]
    by (simp add: fold_min2_fst)
  show "snd (min_axis0 cs) = Min (snd ` set cs)"
    unfolding cs min_axis0_def using Min.set_eq_fold[of "snd c" "map snd cs'"]
    by (simp add: fold_min2_snd)
qed

lemma max_axis0_Max:
  assumes "cs \<noteq> []"
  shows "fst (max_axis0 cs) = Max (fst ` set cs)" "snd (max_axis0 cs) = Max (snd ` set cs)"
proof -
  obtain c cs' where cs: "cs = c # cs'" using assms by (cases cs) auto
  show "fst (max_axis0 cs) = Max (fst ` set cs)"
    unfolding cs max_axis0_def using Max.set_eq_fold[of "fst c" "map fst cs'"]
    by (simp add: fold_max2_fst)
  show "snd (max_axis0 cs) = Max (snd ` set cs)"
    unfolding cs max_axis0_def using Max.set_eq_fold[of "snd c" "map snd cs'"]
    by (simp add: fold_max2_snd)
qed

lemma set_all_corners: "set (all_corners ts) = corner_idx ` set ts \<union> opp_corner_idx ` set ts"
  by (auto simp: all_corners_def)

lemma all_corners_Nil_iff: "all_corners ts = [] \<longleftrightarrow> ts = []"
  by (cases ts) (simp_all add: all_corners_def)

lemma min_axis0_le:
  assumes "c \<in> set cs"
  shows "le2 (min_axis0 cs) c"
proof -
  from assms have ne: "cs \<noteq> []" by auto
  have "Min (fst ` set cs) \<le> fst c" "Min (snd ` set cs) \<le> snd c"
    using assms by (simp_all add: Min_le)
  then show ?thesis by (simp add: le2_def min_axis0_Min[OF ne])
qed

lemma max_axis0_ge:
  assumes "c \<in> set cs"
  shows "le2 c (max_axis0 cs)"
proof -
  from assms have ne: "cs \<noteq> []" by auto
  have "fst c \<le> Max (fst ` set cs)" "snd c \<le> Max (snd ` set cs)"
    using assms by (simp_all add: Max_ge)
  then show ?thesis by (simp add: le2_def max_axis0_Max[OF ne])
qed

lemma min_all_corners:
  assumes "ts \<noteq> []" "\<forall>t \<in> set ts. le2 (corner_idx t) (opp_corner_idx t)"
  shows "min_axis0 (all_corners ts) = min_axis0 (map corner_idx ts)"
proof -
  have ne: "all_corners ts \<noteq> []" "map corner_idx ts \<noteq> []" using assms(1) by (simp_all add: all_corners_Nil_iff)
  have f: "Min (fst ` set (all_corners ts)) = Min (fst ` set (map corner_idx ts))"
  proof (rule Min_eqI)
    show "finite (fst ` set (all_corners ts))" by simp
    show "Min (fst ` set (map corner_idx ts)) \<in> fst ` set (all_corners ts)"
    proof -
      have "Min (fst ` set (map corner_idx ts)) \<in> fst ` set (map corner_idx ts)"
        using ne by (intro Min_in) simp_all
      then show ?thesis unfolding set_all_corners by auto
    qed
    fix y assume "y \<in> fst ` set (all_corners ts)"
    then obtain t where t: "t \<in> set ts" "y = fst (corner_idx t) \<or> y = fst (opp_corner_idx t)"
      by (auto simp: set_all_corners)
    then have "fst (corner_idx t) \<le> y" using assms(2) by (auto simp: le2_def)
    moreover have "Min (fst ` set (map corner_idx ts)) \<le> fst (corner_idx t)"
      using t(1) by (intro Min_le) auto
    ultimately show "Min (fst ` set (map corner_idx ts)) \<le> y" by linarith
  qed
  have s: "Min (snd ` set (all_corners ts)) = Min (snd ` set (map corner_idx ts))"
  proof (rule Min_eqI)
    show "finite (snd ` set (all_corners ts))" by simp
    show "Min (snd ` set (map corner_idx ts)) \<in> snd ` set (all_corners ts)"
    proof -
      have "Min (snd ` set (map corner_idx ts)) \<in> snd ` set (map corner_idx ts)"
        using ne by (intro Min_in) simp_all
      then show ?thesis unfolding set_all_corners by auto
    qed
    fix y assume "y \<in> snd ` set (all_corners ts)"
    then obtain t where t: "t \<in> set ts" "y = snd (corner_idx t) \<or> y = snd (opp_corner_idx t)"
      by (auto simp: set_all_corners)
    then have "snd (corner_idx t) \<le> y" using assms(2) by (auto simp: le2_def)
    moreover have "Min (snd ` set (map corner_idx ts)) \<le> snd (corner_idx t)"
      using t(1) by (intro Min_le) auto
    ultimately show "Min (snd ` set (map corner_idx ts)) \<le> y" by linarith
  qed
  show ?thesis
    by (rule prod_eqI) (simp_all add: min_axis0_Min[OF ne(1)] min_axis0_Min[OF ne(2)] f s)
qed

lemma max_all_corners:
  assumes "ts \<noteq> []" "\<forall>t \<in> set ts. le2 (corner_idx t) (opp_corner_idx t)"
  shows "max_axis0 (all_corners ts) = max_axis0 (map opp_corner_idx ts)"
proof -
  have ne: "all_corners ts \<noteq> []" "map opp_corner_idx ts \<noteq> []" using assms(1) by (simp_all add: all_corners_Nil_iff)
  have f: "Max (fst ` set (all_corners ts)) = Max (fst ` set (map opp_corner_idx ts))"
  proof (rule Max_eqI)
    show "finite (fst ` set (all_corners ts))" by simp
    show "Max (fst ` set (map opp_corner_idx ts)) \<in> fst ` set (all_corners ts)"
    proof -
      have "Max (fst ` set (map opp_corner_idx ts)) \<in> fst ` set (map opp_corner_idx ts)"
        using ne by (intro Max_in) simp_all
      then show ?thesis unfolding set_all_corners by auto
    qed
    fix y assume "y \<in> fst ` set (all_corners ts)"
    then obtain t where t: "t \<in> set ts" "y = fst (corner_idx t) \<or> y = fst (opp_corner_idx t)"
      by (auto simp: set_all_corners)
    then have "y \<le> fst (opp_corner_idx t)" using assms(2) by (auto simp: le2_def)
    moreover have "fst (opp_corner_idx t) \<le> Max (fst ` set (map opp_corner_idx ts))"
      using t(1) by (intro Max_ge) auto
    ultimately show "y \<le> Max (fst ` set (map opp_corner_idx ts))" by linarith
  qed
  have s: "Max (snd ` set (all_corners ts)) = Max (snd ` set (map opp_corner_idx ts))"
  proof (rule Max_eqI)
    show "finite (snd ` set (all_corners ts))" by simp
    show "Max (snd ` set (map opp_corner_idx ts)) \<in> snd ` set (all_corners ts)"
    proof -
      have "Max (snd ` set (map opp_corner_idx ts)) \<in> snd ` set (map opp_corner_idx ts)"
        using ne by (intro Max_in) simp_all
      then show ?thesis unfolding set_all_corners by auto
    qed
    fix y assume "y \<in> snd ` set (all_corners ts)"
    then obtain t where t: "t \<in> set ts" "y = snd (corner_idx t) \<or> y = snd (opp_corner_idx t)"
      by (auto simp: set_all_corners)
    then have "y \<le> snd (opp_corner_idx t)" using assms(2) by (auto simp: le2_def)
    moreover have "snd (opp_corner_idx t) \<le> Max (snd ` set (map opp_corner_idx ts))"
      using t(1) by (intro Max_ge) auto
    ultimately show "y \<le> Max (snd ` set (map opp_corner_idx ts))" by linarith
  qed
  show ?thesis
    by (rule prod_eqI) (simp_all add: max_axis0_Max[OF ne(1)] max_axis0_Max[OF ne(2)] f s)
qed

lemma get_dimensions_snapped_eq:
  "get_dimensions_snapped mods =
     (if concat mods = [] then Inl ValueError
      else Inr (sub2 (max_axis0 (all_corners (concat mods))) (min_axis0 (all_corners (concat mods))),
                neg2 (min_axis0 (all_corners (concat mods)))))"
  unfolding get_dimensions_snapped_def Let_def
  by (simp add: all_corners_Nil_iff)

lemma snap_shape:
  assumes "snap f = Inr g"
  shows "opp_corner_idx g = add2 (corner_idx g) (pixel_dims g)"
    and "pixel_dims g = (if transposed g then (fs_pixels f, ss_pixels f) else (ss_pixels f, fs_pixels f))"
    and "ss_order g = 1 \<or> ss_order g = - 1"
    and "fs_order g = 1 \<or> fs_order g = - 1"
proof -
  note d = snap_InrD[OF assms]
  from d(1) have "opp_corner_idx g = add2 (corner_idx g) (pixel_dims g)
    \<and> pixel_dims g = (if transposed g then (fs_pixels f, ss_pixels f) else (ss_pixels f, fs_pixels f))
    \<and> (ss_order g = 1 \<or> ss_order g = - 1) \<and> (fs_order g = 1 \<or> fs_order g = - 1)"
  proof (cases rule: around32_aligned_cases)
    case (straight a d')
    then have "(a = 1 \<or> a = -1) \<and> (d' = 1 \<or> d' = -1)" by (auto dest: abs1_cases)
    then show ?thesis using straight d(2)
      by (auto simp: GridGeometryFragment_def Let_def rev2_def split: sum.splits)
  next
    case (swapped b c)
    then have "(b = 1 \<or> b = -1) \<and> (c = 1 \<or> c = -1)" by (auto dest: abs1_cases)
    then show ?thesis using swapped d(2)
      by (auto simp: GridGeometryFragment_def Let_def rev2_def split: sum.splits)
  qed
  then show "opp_corner_idx g = add2 (corner_idx g) (pixel_dims g)"
    and "pixel_dims g = (if transposed g then (fs_pixels f, ss_pixels f) else (ss_pixels f, fs_pixels f))"
    and "ss_order g = 1 \<or> ss_order g = - 1"
    and "fs_order g = 1 \<or> fs_order g = - 1" by blast+
qed

lemma snap_corner_le_opp:
  assumes "snap f = Inr g" "0 \<le> ss_pixels f" "0 \<le> fs_pixels f"
  shows "le2 (corner_idx g) (opp_corner_idx g)"
  using snap_shape(1,2)[OF assms(1)] assms(2,3) by (auto simp: le2_def add2_def)

lemma setitem_yx_shape: "setitem_yx out yx hw v = Inr out' \<Longrightarrow> shape out' = shape out"
  by (auto simp: setitem_yx_def Let_def split: if_splits)

lemma place_tiles_shape:
  "place_tiles centre td j ts out = Inr out' \<Longrightarrow> shape out' = shape out"
proof (induction ts arbitrary: j out)
  case Nil
  then show ?case by simp
next
  case (Cons t ts)
  then show ?case
    by (auto simp: ebind_Inr_iff split: if_splits dest!: setitem_yx_shape)
qed

lemma place_modules_shape:
  "place_modules det centre data i ms out = Inr out' \<Longrightarrow> shape out' = shape out"
proof (induction ms arbitrary: i out)
  case Nil
  then show ?case by simp
next
  case (Cons m ms)
  then show ?case
    by (auto simp: ebind_Inr_iff dest!: place_tiles_shape)
qed

lemma position_modules_InrD:
  assumes "position_modules nan sg data = Inr (out, centre)"
  shows "trailing 3 (shape data) = expected_data_shape (sg_geom sg)"
    and "\<exists>canvas. get_dimensions_snapped (sg_modules sg) = Inr (canvas, centre)
           \<and> shape out = leading 3 (shape data) @ [nat (fst canvas), nat (snd canvas)]"
  using assms unfolding position_modules_def Let_def
  by (auto simp: ebind_Inr_iff np_full_def split: if_splits dest!: place_modules_shape)

lemma slice_range_inside:
  assumes "0 \<le> y" "0 \<le> h" "y + h \<le> int n"
  shows "slice_range y h n = (nat y, nat y + nat h)"
  using assms by (auto simp: slice_range_def slice_bound_def)

subsection \<open>Shapes through the fast assembler\<close>

lemma update_second_last: "(b @ [p, q])[length b := x] = b @ [x, q]"
  by (simp add: list_update_append)

lemma update_last: "(b @ [p, q])[Suc (length b) := x] = b @ [p, x]"
  by (simp add: list_update_append)

lemma slice_len_unit: "s = 1 \<or> s = - 1 \<Longrightarrow> slice_len s n = n"
  by (auto simp: slice_len_def)

lemma step_axis_rows:
  assumes "shape arr = b @ [p, q]" "s = 1 \<or> s = - 1"
  shows "\<exists>v. step_axis arr s 2 = Inr v \<and> shape v = b @ [p, q]"
proof -
  have k: "length (shape arr) - 2 = length b" by (simp add: assms(1))
  have n: "\<not> length (shape arr) < 2" by (simp add: assms(1))
  have z: "s \<noteq> 0" using assms(2) by auto
  show ?thesis
    unfolding step_axis_def Let_def k using n z assms(2)
    by (simp add: assms(1) update_second_last slice_len_unit)
qed

lemma step_axis_cols:
  assumes "shape arr = b @ [p, q]" "s = 1 \<or> s = - 1"
  shows "\<exists>v. step_axis arr s 1 = Inr v \<and> shape v = b @ [p, q]"
proof -
  have k: "length (shape arr) - 1 = Suc (length b)" by (simp add: assms(1))
  have n: "\<not> length (shape arr) < 1" by (simp add: assms(1))
  have z: "s \<noteq> 0" using assms(2) by auto
  have e: "(b @ [p, q]) ! Suc (length b) = q" by (simp add: nth_append)
  show ?thesis
    unfolding step_axis_def Let_def k using n z assms(2)
    by (simp add: assms(1) update_last slice_len_unit e)
qed

lemma swap_last2_append: "swap_last2 (b @ [p, q]) = b @ [q, p]"
  by (simp add: swap_last2_def leading_def nth_append Let_def)

lemma swapaxes_shape:
  assumes "shape arr = b @ [p, q]"
  shows "\<exists>v. swapaxes arr = Inr v \<and> shape v = b @ [q, p]"
  by (simp add: swapaxes_def assms swap_last2_append)

lemma transform_shape:
  assumes "shape arr = b @ [p, q]" "ss_order g = 1 \<or> ss_order g = - 1"
    "fs_order g = 1 \<or> fs_order g = - 1"
  shows "\<exists>v. transform g arr = Inr v \<and> shape v = b @ (if transposed g then [q, p] else [p, q])"
proof (cases "transposed g")
  case True
  from swapaxes_shape[OF assms(1)] obtain a where a: "swapaxes arr = Inr a" "shape a = b @ [q, p]"
    by blast
  from step_axis_rows[OF a(2) assms(3)] obtain c where c: "step_axis a (fs_order g) 2 = Inr c"
    "shape c = b @ [q, p]" by blast
  from step_axis_cols[OF c(2) assms(2)] obtain v where "step_axis c (ss_order g) 1 = Inr v"
    "shape v = b @ [q, p]" by blast
  then show ?thesis using True a c by (simp add: transform_def)
next
  case False
  from step_axis_rows[OF assms(1,2)] obtain c where c: "step_axis arr (ss_order g) 2 = Inr c"
    "shape c = b @ [p, q]" by blast
  from step_axis_cols[OF c(2) assms(3)] obtain v where "step_axis c (fs_order g) 1 = Inr v"
    "shape v = b @ [p, q]" by blast
  then show ?thesis using False c by (simp add: transform_def)
qed

lemma bc_rev_refl: "bc_rev xs xs"
  by (induction xs) auto

lemma broadcastable_refl: "broadcastable xs xs"
  by (simp add: broadcastable_def bc_rev_refl)

lemma setitem_yx_ok:
  assumes "shape out = b @ [ny, nx]" "shape v = b @ [h, w]"
    and "snd (slice_range (fst yx) (fst hw) ny) - fst (slice_range (fst yx) (fst hw) ny) = h"
    and "snd (slice_range (snd yx) (snd hw) nx) - fst (slice_range (snd yx) (snd hw) nx) = w"
  shows "\<exists>out'. setitem_yx out yx hw v = Inr out' \<and> shape out' = b @ [ny, nx]"
proof -
  have k: "length (shape out) - 2 = length b" "length (shape out) - 1 = Suc (length b)"
    "\<not> length (shape out) < 2" by (simp_all add: assms(1))
  have e: "shape out ! length b = ny" "shape out ! Suc (length b) = nx"
    "leading 2 (shape out) = b"
    by (simp_all add: assms(1) nth_append leading_def)
  show ?thesis
    unfolding setitem_yx_def Let_def k e assms(3,4) using k(3)
    by (simp add: assms(1,2) broadcastable_refl)
qed

lemma take_module_ok:
  assumes "shape data = b @ [n, r, c]" "i < n"
  shows "\<exists>md. take_module data i = Inr md \<and> shape md = b @ [r, c]"
proof -
  have k: "length (shape data) - 3 = length b" "\<not> length (shape data) < 3"
    by (simp_all add: assms(1))
  show ?thesis
    unfolding take_module_def Let_def k using k(2) assms(2)
    by (simp add: assms(1) nth_append)
qed

lemma np_split_rows:
  assumes "shape arr = b @ [p, q]" "p mod n = 0"
  shows "\<exists>l. np_split arr n 2 = Inr l \<and> length l = n \<and> (\<forall>a \<in> set l. shape a = b @ [p div n, q])"
proof -
  have k: "length (shape arr) - 2 = length b" "\<not> length (shape arr) < 2"
    by (simp_all add: assms(1))
  show ?thesis
    unfolding np_split_def Let_def k using k(2) assms(2)
    by (auto simp: assms(1) nth_append update_second_last)
qed

lemma np_split_cols:
  assumes "shape arr = b @ [p, q]" "q mod n = 0"
  shows "\<exists>l. np_split arr n 1 = Inr l \<and> length l = n \<and> (\<forall>a \<in> set l. shape a = b @ [p, q div n])"
proof -
  have k: "length (shape arr) - 1 = Suc (length b)" "\<not> length (shape arr) < 1"
    by (simp_all add: assms(1))
  show ?thesis
    unfolding np_split_def Let_def k using k(2) assms(2)
    by (auto simp: assms(1) nth_append update_last)
qed

lemma split_tiles_ok:
  assumes "shape md = b @ tl (expected_data_shape det)"
  shows "\<exists>td. split_tiles det md = Inr td \<and> length td = tiles_per_module det
           \<and> (\<forall>a \<in> set td. shape a = b @ [nat (frag_ss_pixels det), nat (frag_fs_pixels det)])"
proof (cases det)
  case AGIPD_1M
  then have s: "shape md = b @ [512, 128]" using assms by simp
  from np_split_rows[OF s, of 8] show ?thesis using AGIPD_1M by simp
next
  case LPD_1M
  then have s: "shape md = b @ [256, 256]" using assms by simp
  from np_split_cols[OF s, of 2] obtain hs where hs: "np_split md 2 1 = Inr hs" "length hs = 2"
    "\<forall>a \<in> set hs. shape a = b @ [256, 128]" by auto
  then have h: "shape (hs ! 0) = b @ [256, 128]" "shape (hs ! 1) = b @ [256, 128]"
    by (simp_all add: nth_mem)
  from np_split_rows[OF h(1), of 8] obtain l where l: "np_split (hs ! 0) 8 2 = Inr l" "length l = 8"
    "\<forall>a \<in> set l. shape a = b @ [32, 128]" by auto
  from np_split_rows[OF h(2), of 8] obtain r where r: "np_split (hs ! 1) 8 2 = Inr r" "length r = 8"
    "\<forall>a \<in> set r. shape a = b @ [32, 128]" by auto
  show ?thesis using LPD_1M hs(1) l r by (auto simp: ebind_def)
qed

lemma place_tiles_ok:
  assumes "shape out = b @ [ny, nx]"
    and "j + length ts \<le> length td"
    and "\<forall>a \<in> set td. shape a = b @ [p, q]"
    and "\<forall>t \<in> set ts. (ss_order t = 1 \<or> ss_order t = - 1) \<and> (fs_order t = 1 \<or> fs_order t = - 1)
          \<and> snd (slice_range (fst (add2 (corner_idx t) centre)) (fst (pixel_dims t)) ny)
              - fst (slice_range (fst (add2 (corner_idx t) centre)) (fst (pixel_dims t)) ny)
              = (if transposed t then q else p)
          \<and> snd (slice_range (snd (add2 (corner_idx t) centre)) (snd (pixel_dims t)) nx)
              - fst (slice_range (snd (add2 (corner_idx t) centre)) (snd (pixel_dims t)) nx)
              = (if transposed t then p else q)"
  shows "\<exists>out'. place_tiles centre td j ts out = Inr out' \<and> shape out' = b @ [ny, nx]"
  using assms(1,2,4)
proof (induction ts arbitrary: j out)
  case Nil
  then show ?case by simp
next
  case (Cons t ts)
  from Cons.prems(2) have j: "j < length td" "Suc j + length ts \<le> length td" by simp_all
  then have sh: "shape (td ! j) = b @ [p, q]" using assms(3) by (simp add: nth_mem)
  from Cons.prems(3) have o: "ss_order t = 1 \<or> ss_order t = - 1" "fs_order t = 1 \<or> fs_order t = - 1"
    and r: "snd (slice_range (fst (add2 (corner_idx t) centre)) (fst (pixel_dims t)) ny)
              - fst (slice_range (fst (add2 (corner_idx t) centre)) (fst (pixel_dims t)) ny)
              = (if transposed t then q else p)"
    and c: "snd (slice_range (snd (add2 (corner_idx t) centre)) (snd (pixel_dims t)) nx)
              - fst (slice_range (snd (add2 (corner_idx t) centre)) (snd (pixel_dims t)) nx)
              = (if transposed t then p else q)"
    and rest: "\<forall>t \<in> set ts. (ss_order t = 1 \<or> ss_order t = - 1) \<and> (fs_order t = 1 \<or> fs_order t = - 1)
          \<and> snd (slice_range (fst (add2 (corner_idx t) centre)) (fst (pixel_dims t)) ny)
              - fst (slice_range (fst (add2 (corner_idx t) centre)) (fst (pixel_dims t)) ny)
              = (if transposed t then q else p)
          \<and> snd (slice_range (snd (add2 (corner_idx t) centre)) (snd (pixel_dims t)) nx)
              - fst (slice_range (snd (add2 (corner_idx t) centre)) (snd (pixel_dims t)) nx)
              = (if transposed t then p else q)"
    by simp_all
  from transform_shape[OF sh o] obtain v where v: "transform t (td ! j) = Inr v"
    "shape v = b @ (if transposed t then [q, p] else [p, q])" by blast
  then have v': "shape v = b @ [if transposed t then q else p, if transposed t then p else q]"
    by simp
  from setitem_yx_ok[OF Cons.prems(1) v' r c] obtain out1 where
    s: "setitem_yx out (add2 (corner_idx t) centre) (pixel_dims t) v = Inr out1"
    "shape out1 = b @ [ny, nx]" by blast
  from Cons.IH[OF s(2) j(2) rest] obtain out' where
    "place_tiles centre td (Suc j) ts out1 = Inr out'" "shape out' = b @ [ny, nx]" by blast
  then show ?case using j(1) v(1) s(1) by simp
qed

lemma place_modules_ok:
  assumes "shape data = b @ expected_data_shape det"
    and "shape out = b @ [ny, nx]"
    and "i + length ms \<le> hd (expected_data_shape det)"
    and "\<forall>m \<in> set ms. length m \<le> tiles_per_module det"
    and "\<forall>t \<in> set (concat ms). (ss_order t = 1 \<or> ss_order t = - 1) \<and> (fs_order t = 1 \<or> fs_order t = - 1)
          \<and> snd (slice_range (fst (add2 (corner_idx t) centre)) (fst (pixel_dims t)) ny)
              - fst (slice_range (fst (add2 (corner_idx t) centre)) (fst (pixel_dims t)) ny)
              = (if transposed t then nat (frag_fs_pixels det) else nat (frag_ss_pixels det))
          \<and> snd (slice_range (snd (add2 (corner_idx t) centre)) (snd (pixel_dims t)) nx)
              - fst (slice_range (snd (add2 (corner_idx t) centre)) (snd (pixel_dims t)) nx)
              = (if transposed t then nat (frag_ss_pixels det) else nat (frag_fs_pixels det))"
  shows "\<exists>out'. place_modules det centre data i ms out = Inr out' \<and> shape out' = b @ [ny, nx]"
  using assms(2,3,4,5)
proof (induction ms arbitrary: i out)
  case Nil
  then show ?case by simp
next
  case (Cons m ms)
  obtain n r c where e: "expected_data_shape det = [n, r, c]" by (cases det) simp_all
  from Cons.prems(2) e have i: "i < n" "Suc i + length ms \<le> hd (expected_data_shape det)" by simp_all
  have sd: "shape data = b @ [n, r, c]" using assms(1) e by simp
  from take_module_ok[OF sd i(1)] obtain md where md: "take_module data i = Inr md"
    "shape md = b @ [r, c]" by blast
  then have "shape md = b @ tl (expected_data_shape det)" using e by simp
  from split_tiles_ok[OF this] obtain td where td: "split_tiles det md = Inr td"
    "length td = tiles_per_module det"
    "\<forall>a \<in> set td. shape a = b @ [nat (frag_ss_pixels det), nat (frag_fs_pixels det)]" by blast
  have l: "0 + length m \<le> length td" using Cons.prems(3) td(2) by simp
  have tm: "\<forall>t \<in> set m. (ss_order t = 1 \<or> ss_order t = - 1) \<and> (fs_order t = 1 \<or> fs_order t = - 1)
          \<and> snd (slice_range (fst (add2 (corner_idx t) centre)) (fst (pixel_dims t)) ny)
              - fst (slice_range (fst (add2 (corner_idx t) centre)) (fst (pixel_dims t)) ny)
              = (if transposed t then nat (frag_fs_pixels det) else nat (frag_ss_pixels det))
          \<and> snd (slice_range (snd (add2 (corner_idx t) centre)) (snd (pixel_dims t)) nx)
              - fst (slice_range (snd (add2 (corner_idx t) centre)) (snd (pixel_dims t)) nx)
              = (if transposed t then nat (frag_ss_pixels det) else nat (frag_fs_pixels det))"
    using Cons.prems(4) by simp
  from place_tiles_ok[OF Cons.prems(1) l td(3) tm] obtain out1 where
    o1: "place_tiles centre td 0 m out = Inr out1" "shape out1 = b @ [ny, nx]" by blast
  have r1: "\<forall>m \<in> set ms. length m \<le> tiles_per_module det" using Cons.prems(3) by simp
  have r2: "\<forall>t \<in> set (concat ms). (ss_order t = 1 \<or> ss_order t = - 1) \<and> (fs_order t = 1 \<or> fs_order t = - 1)
          \<and> snd (slice_range (fst (add2 (corner_idx t) centre)) (fst (pixel_dims t)) ny)
              - fst (slice_range (fst (add2 (corner_idx t) centre)) (fst (pixel_dims t)) ny)
              = (if transposed t then nat (frag_fs_pixels det) else nat (frag_ss_pixels det))
          \<and> snd (slice_range (snd (add2 (corner_idx t) centre)) (snd (pixel_dims t)) nx)
              - fst (slice_range (snd (add2 (corner_idx t) centre)) (snd (pixel_dims t)) nx)
              = (if transposed t then nat (frag_ss_pixels det) else nat (frag_fs_pixels det))"
    using Cons.prems(4) by simp
  from Cons.IH[OF o1(2) i(2) r1 r2] obtain out' where
    "place_modules det centre data (Suc i) ms out1 = Inr out'" "shape out' = b @ [ny, nx]" by blast
  then show ?case using md(1) td(1) o1(1) by simp
qed

lemma tile_slices:
  assumes "snap_modules mods = Inr tiles"
    and "get_dimensions_snapped tiles = Inr (canvas, centre)"
    and "tile \<in> set (concat tiles)"
    and "0 \<le> fst (pixel_dims tile)" "0 \<le> snd (pixel_dims tile)"
  shows "snd (slice_range (fst (add2 (corner_idx tile) centre)) (fst (pixel_dims tile)) (nat (fst canvas)))
           - fst (slice_range (fst (add2 (corner_idx tile) centre)) (fst (pixel_dims tile)) (nat (fst canvas)))
           = nat (fst (pixel_dims tile))"
    and "snd (slice_range (snd (add2 (corner_idx tile) centre)) (snd (pixel_dims tile)) (nat (snd canvas)))
           - fst (slice_range (snd (add2 (corner_idx tile) centre)) (snd (pixel_dims tile)) (nat (snd canvas)))
           = nat (snd (pixel_dims tile))"
proof -
  from assms(3) have ne: "concat tiles \<noteq> []" by (cases "concat tiles") simp_all
  let ?cs = "all_corners (concat tiles)"
  from assms(2) ne have sz: "canvas = sub2 (max_axis0 ?cs) (min_axis0 ?cs)" and ce: "centre = neg2 (min_axis0 ?cs)"
    by (auto simp: get_dimensions_snapped_eq split: if_splits)
  have m: "corner_idx tile \<in> set ?cs" "opp_corner_idx tile \<in> set ?cs"
    using assms(3) by (auto simp: set_all_corners)
  note b = min_axis0_le[OF m(1)] max_axis0_ge[OF m(2)]
  from snapped_tile_origin[OF assms(1,3)] obtain f where "snap f = Inr tile" by blast
  note o = snap_shape(1)[OF this]
  have 1: "0 \<le> fst (add2 (corner_idx tile) centre)" "0 \<le> snd (add2 (corner_idx tile) centre)"
    using b by (auto simp: le2_def add2_def neg2_def ce)
  have 2: "fst (add2 (corner_idx tile) centre) + fst (pixel_dims tile) \<le> int (nat (fst canvas))"
    "snd (add2 (corner_idx tile) centre) + snd (pixel_dims tile) \<le> int (nat (snd canvas))"
    using b o by (auto simp: le2_def add2_def neg2_def sub2_def ce sz)
  show "snd (slice_range (fst (add2 (corner_idx tile) centre)) (fst (pixel_dims tile)) (nat (fst canvas)))
           - fst (slice_range (fst (add2 (corner_idx tile) centre)) (fst (pixel_dims tile)) (nat (fst canvas)))
           = nat (fst (pixel_dims tile))"
    by (simp add: slice_range_inside[OF 1(1) assms(4) 2(1)])
  show "snd (slice_range (snd (add2 (corner_idx tile) centre)) (snd (pixel_dims tile)) (nat (snd canvas)))
           - fst (slice_range (snd (add2 (corner_idx tile) centre)) (snd (pixel_dims tile)) (nat (snd canvas)))
           = nat (snd (pixel_dims tile))"
    by (simp add: slice_range_inside[OF 1(2) assms(5) 2(2)])
qed

lemma canvas_nonneg:
  assumes "get_dimensions_snapped tiles = Inr (canvas, centre)"
  shows "0 \<le> fst canvas" "0 \<le> snd canvas"
proof -
  from assms have ne: "concat tiles \<noteq> []"
    by (auto simp: get_dimensions_snapped_eq split: if_splits)
  let ?cs = "all_corners (concat tiles)"
  have "?cs \<noteq> []" using ne by (simp add: all_corners_Nil_iff)
  then have h: "hd ?cs \<in> set ?cs" by simp
  from assms ne have sz: "canvas = sub2 (max_axis0 ?cs) (min_axis0 ?cs)"
    by (auto simp: get_dimensions_snapped_eq split: if_splits)
  from min_axis0_le[OF h] max_axis0_ge[OF h]
  show "0 \<le> fst canvas" "0 \<le> snd canvas" by (auto simp: sz sub2_def le2_def)
qed

lemma frag_pixels_pos: "0 \<le> frag_ss_pixels det" "0 \<le> frag_fs_pixels det"
  by (cases det; simp)+

lemma trailing_shape:
  assumes "trailing 3 sh = [n, r, c]"
  shows "sh = leading 3 sh @ [n, r, c]"
proof -
  have "sh = take (length sh - 3) sh @ drop (length sh - 3) sh" by simp
  also have "drop (length sh - 3) sh = [n, r, c]" using assms by (simp add: trailing_def)
  finally show ?thesis by (simp add: leading_def)
qed

lemma position_modules_ok:
  assumes "well_formed det mods" "snap_modules mods = Inr tiles"
    and "trailing 3 (shape data) = expected_data_shape det"
  shows "\<exists>out canvas centre.
           position_modules nan \<lparr>sg_modules = tiles, sg_geom = det\<rparr> data = Inr (out, centre)
           \<and> get_dimensions_snapped tiles = Inr (canvas, centre)
           \<and> shape out = leading 3 (shape data) @ [nat (fst canvas), nat (snd canvas)]"
proof -
  note rel = snap_modules_rel[OF assms(2)]
  from assms(1) have wf: "length mods \<le> hd (expected_data_shape det)"
    "\<forall>m \<in> set mods. length m \<le> tiles_per_module det" "concat mods \<noteq> []"
    "\<forall>f \<in> set (concat mods). ss_pixels f = frag_ss_pixels det \<and> fs_pixels f = frag_fs_pixels det"
    by (simp_all add: well_formed_def)
  from list_all2_concat_nonempty[OF rel wf(3)] have ne: "concat tiles \<noteq> []" .
  then obtain canvas centre where gd: "get_dimensions_snapped tiles = Inr (canvas, centre)"
    by (simp add: get_dimensions_snapped_eq)
  note cn = canvas_nonneg[OF gd]
  obtain n r c where e: "expected_data_shape det = [n, r, c]" by (cases det) simp_all
  let ?b = "leading 3 (shape data)"
  have sd: "shape data = ?b @ expected_data_shape det"
    using trailing_shape[of "shape data" n r c] assms(3) e by simp
  have len: "length tiles = length mods" using rel by (simp add: list_all2_lengthD)
  have l1: "0 + length tiles \<le> hd (expected_data_shape det)" using wf(1) len by simp
  have l2: "\<forall>m \<in> set tiles. length m \<le> tiles_per_module det"
  proof
    fix m assume "m \<in> set tiles"
    then obtain k where k: "k < length tiles" "m = tiles ! k" by (auto simp: in_set_conv_nth)
    with rel have "length (mods ! k) = length m"
      by (auto simp: list_all2_conv_all_nth dest: list_all2_lengthD)
    moreover have "mods ! k \<in> set mods" using k len by simp
    ultimately show "length m \<le> tiles_per_module det" using wf(2) by auto
  qed
  have l3: "\<forall>t \<in> set (concat tiles). (ss_order t = 1 \<or> ss_order t = - 1) \<and> (fs_order t = 1 \<or> fs_order t = - 1)
          \<and> snd (slice_range (fst (add2 (corner_idx t) centre)) (fst (pixel_dims t)) (nat (fst canvas)))
              - fst (slice_range (fst (add2 (corner_idx t) centre)) (fst (pixel_dims t)) (nat (fst canvas)))
              = (if transposed t then nat (frag_fs_pixels det) else nat (frag_ss_pixels det))
          \<and> snd (slice_range (snd (add2 (corner_idx t) centre)) (snd (pixel_dims t)) (nat (snd canvas)))
              - fst (slice_range (snd (add2 (corner_idx t) centre)) (snd (pixel_dims t)) (nat (snd canvas)))
              = (if transposed t then nat (frag_ss_pixels det) else nat (frag_fs_pixels det))"
  proof
    fix t assume t: "t \<in> set (concat tiles)"
    from snapped_tile_origin[OF assms(2) t] obtain f where f: "f \<in> set (concat mods)" "snap f = Inr t"
      by blast
    note s = snap_shape[OF f(2)]
    from wf(4) f(1) have px: "ss_pixels f = frag_ss_pixels det" "fs_pixels f = frag_fs_pixels det"
      by blast+
    have pd: "pixel_dims t = (if transposed t then (frag_fs_pixels det, frag_ss_pixels det)
                              else (frag_ss_pixels det, frag_fs_pixels det))"
      using s(2) px by simp
    have nn: "0 \<le> fst (pixel_dims t)" "0 \<le> snd (pixel_dims t)"
      using pd frag_pixels_pos[of det] by (simp_all split: if_splits)
    note ts = tile_slices[OF assms(2) gd t nn]
    show "(ss_order t = 1 \<or> ss_order t = - 1) \<and> (fs_order t = 1 \<or> fs_order t = - 1)
          \<and> snd (slice_range (fst (add2 (corner_idx t) centre)) (fst (pixel_dims t)) (nat (fst canvas)))
              - fst (slice_range (fst (add2 (corner_idx t) centre)) (fst (pixel_dims t)) (nat (fst canvas)))
              = (if transposed t then nat (frag_fs_pixels det) else nat (frag_ss_pixels det))
          \<and> snd (slice_range (snd (add2 (corner_idx t) centre)) (snd (pixel_dims t)) (nat (snd canvas)))
              - fst (slice_range (snd (add2 (corner_idx t) centre)) (snd (pixel_dims t)) (nat (snd canvas)))
              = (if transposed t then nat (frag_ss_pixels det) else nat (frag_fs_pixels det))"
      unfolding ts using s(3,4) pd by simp
  qed
  let ?out0 = "np_full (?b @ [nat (fst canvas), nat (snd canvas)]) nan"
  have so: "shape ?out0 = ?b @ [nat (fst canvas), nat (snd canvas)]" by (simp add: np_full_def)
  from place_modules_ok[OF sd so l1 l2 l3] obtain out' where
    pm: "place_modules det centre data 0 tiles ?out0 = Inr out'"
    "shape out' = ?b @ [nat (fst canvas), nat (snd canvas)]" by blast
  have "position_modules nan \<lparr>sg_modules = tiles, sg_geom = det\<rparr> data = Inr (out', centre)"
    unfolding position_modules_def using assms(3) gd cn pm(1) by (simp add: Let_def)
  with gd pm(2) show ?thesis by blast
qed

subsection \<open>The interpolating assembler's loops\<close>

lemma np_linalg_inv_ok: "a * d - b * c \<noteq> 0 \<Longrightarrow> \<exists>m. np_linalg_inv ((a, b), (c, d)) = Inr m"
  by (simp add: np_linalg_inv_def Let_def)

lemma interpolate_tiles_ok:
  assumes "\<forall>t \<in> set ts. inplane_det t \<noteq> 0"
  shows "\<exists>tmp'. interpolate_tiles smp sz centre td i j ts tmp = Inr tmp'"
  using assms
proof (induction ts arbitrary: j tmp)
  case Nil
  then show ?case by simp
next
  case (Cons t ts)
  have "inplane_det t \<noteq> 0" using Cons.prems by simp
  then have "fst (rev2 (xy (ss_vec t))) * snd (rev2 (xy (fs_vec t)))
           - fst (rev2 (xy (fs_vec t))) * snd (rev2 (xy (ss_vec t))) \<noteq> 0"
    by (simp add: inplane_det_def rev2_def)
  from np_linalg_inv_ok[OF this] obtain m where
    m: "np_linalg_inv ((fst (rev2 (xy (ss_vec t))), fst (rev2 (xy (fs_vec t)))),
                       (snd (rev2 (xy (ss_vec t))), snd (rev2 (xy (fs_vec t))))) = Inr m" by blast
  have r: "\<forall>t \<in> set ts. inplane_det t \<noteq> 0" using Cons.prems by simp
  show ?case
  proof (cases "length td \<le> j")
    case True
    then show ?thesis by simp
  next
    case False
    then show ?thesis using m Cons.IH[OF r] by (simp add: Let_def)
  qed
qed

lemma interpolate_modules_ok:
  assumes "shape data = [16, 512, 128]" "\<forall>t \<in> set (concat ms). inplane_det t \<noteq> 0"
  shows "\<exists>tmp'. interpolate_modules smp sz centre data i ms tmp = Inr tmp'"
  using assms(2)
proof (induction ms arbitrary: i tmp)
  case Nil
  then show ?case by simp
next
  case (Cons m ms)
  let ?md = "\<lparr>shape = tl (shape data), item = (\<lambda>idx. item data (i # idx))\<rparr>"
  have "shape ?md = [] @ [512, 128]" by (simp add: assms(1))
  from np_split_rows[OF this, of 8] obtain td where td: "np_split ?md 8 2 = Inr td" by auto
  have a: "\<forall>t \<in> set m. inplane_det t \<noteq> 0" and b: "\<forall>t \<in> set (concat ms). inplane_det t \<noteq> 0"
    using Cons.prems by simp_all
  from interpolate_tiles_ok[OF a] obtain tmp1 where
    t1: "interpolate_tiles smp sz centre td i 0 m tmp = Inr tmp1" by blast
  show ?case
  proof (cases "hd (shape data) \<le> i")
    case True
    then show ?thesis by simp
  next
    case False
    then show ?thesis using td t1 Cons.IH[OF b] by (simp add: Let_def)
  qed
qed

lemma position_modules_interpolate_ok:
  assumes "shape data = [16, 512, 128]" "concat (modules geom) \<noteq> []"
    and "\<forall>t \<in> set (concat (modules geom)). inplane_det t \<noteq> 0"
  shows "\<exists>out canvas centre.
           position_modules_interpolate smp nmx un geom data = Inr (out, centre)
           \<and> get_dimensions (modules geom) = Inr (canvas, centre)
           \<and> shape out = [nat (fst canvas), nat (snd canvas)]"
proof -
  have "map xy (concat (map corners (concat (modules geom)))) \<noteq> []"
    using assms(2) by (cases "concat (modules geom)") (simp_all add: corners_def)
  then obtain canvas centre where g: "get_dimensions (modules geom) = Inr (canvas, centre)"
    by (simp add: get_dimensions_def Let_def)
  from interpolate_modules_ok[OF assms(1,3)] obtain tmp' where
    "interpolate_modules smp [nat (fst canvas), nat (snd canvas)] centre data 0 (modules geom)
       (replicate (16 * 8) (un\<lparr>shape := [nat (fst canvas), nat (snd canvas)]\<rparr>)) = Inr tmp'"
    by blast
  then have "\<exists>out. position_modules_interpolate smp nmx un geom data = Inr (out, centre)
      \<and> shape out = [nat (fst canvas), nat (snd canvas)]"
    unfolding position_modules_interpolate_def using assms(1) g by (simp add: Let_def)
  with g show ?thesis by blast
qed

lemma position_modules_fast_fresh:
  assumes "snap_modules mods = Inr tiles"
  shows "fst (position_modules_fast nan (new_geometry det mods) data)
           = position_modules nan \<lparr>sg_modules = tiles, sg_geom = det\<rparr> data"
  using assms by (simp add: position_modules_fast_def snapped_def new_geometry_def Let_def)

subsection \<open>C1: the grid placement descriptor\<close>

text \<open>
  Claim C1. Whenever snapping a fragment succeeds (its rounded in-plane vectors are an
  axis permutation), the descriptor follows the derivation rule. Its vectors are the
  rounded ones, swapped to (row, column). If the fast-scan vector's row component is zero
  there is no transpose, the block shape is \<open>(ss_pixels, fs_pixels)\<close>, the row step is
  the sign of the slow-scan vector's row component and the column step is the sign of the
  fast-scan vector's column component; otherwise the block is transposed, its shape is
  \<open>(fs_pixels, ss_pixels)\<close>, the row step is the sign of the fast-scan vector's row
  component and the column step the sign of the slow-scan vector's column component.
  \<open>opp_corner_idx\<close> is \<open>corner_idx + pixel_dims\<close>. As long as the rounded corner, the
  extents and the shifted corner fit 32 bits, \<open>corner_idx\<close> is the rounded corner moved
  back by the block's extent along each axis whose step is negative, and for extents that
  are not negative it is the element-wise minimum of the four corners of the placed block.
\<close>

theorem grid_placement_rule:
  assumes "snap f = Inr g"
  shows "ss_vec_yx g = rev2 (around32 (xy (ss_vec f)))
       \<and> fs_vec_yx g = rev2 (around32 (xy (fs_vec f)))
       \<and> (fst (fs_vec_yx g) = 0 \<longrightarrow>
            \<not> transposed g \<and> pixel_dims g = (ss_pixels f, fs_pixels f)
            \<and> row_step g = sgn (fst (ss_vec_yx g)) \<and> col_step g = sgn (snd (fs_vec_yx g)))
       \<and> (fst (fs_vec_yx g) \<noteq> 0 \<longrightarrow>
            transposed g \<and> pixel_dims g = (fs_pixels f, ss_pixels f)
            \<and> row_step g = sgn (fst (fs_vec_yx g)) \<and> col_step g = sgn (snd (ss_vec_yx g)))
       \<and> (fits_int32 f \<longrightarrow>
            corner_idx g =
              add2 (rev2 (around32 (xy (corner_pos f))))
                (if row_step g < 0 then - fst (pixel_dims g) else 0,
                 if col_step g < 0 then - snd (pixel_dims g) else 0))
       \<and> (fits_int32 f \<and> 0 \<le> ss_pixels f \<and> 0 \<le> fs_pixels f \<longrightarrow>
            corner_idx g = min_axis0 (block_corners (rev2 (around32 (xy (corner_pos f)))) g))
       \<and> opp_corner_idx g = add2 (corner_idx g) (pixel_dims g)"
proof -
  note d = snap_InrD[OF assms]
  note e = snap_fits_exact[OF assms]
  from d(1) show ?thesis
  proof (cases rule: around32_aligned_cases)
    case (straight a d')
    then have o: "(a = 1 \<or> a = -1) \<and> (d' = 1 \<or> d' = -1)" by (auto dest: abs1_cases)
    have 1: "ss_vec_yx g = rev2 (around32 (xy (ss_vec f)))
       \<and> fs_vec_yx g = rev2 (around32 (xy (fs_vec f)))
       \<and> transposed g \<and> pixel_dims g = (fs_pixels f, ss_pixels f)
       \<and> ss_order g = a \<and> fs_order g = d'
       \<and> ss_pixels_yx g = ss_pixels f \<and> fs_pixels_yx g = fs_pixels f
       \<and> opp_corner_idx g = add2 (corner_idx g) (pixel_dims g)"
      using o straight d(2)
      by (auto simp: GridGeometryFragment_def Let_def rev2_def split: sum.splits)
    have 2: "fits_int32 f \<Longrightarrow> corner_idx g =
        add2 (rev2 (around32 (xy (corner_pos f)))) (min d' 0 * fs_pixels f, min a 0 * ss_pixels f)"
      using o straight e by (auto simp: grid_fragment_exact_def Let_def rev2_def)
    show ?thesis using o 1 2 straight
      by (auto simp: rev2_def row_step_def col_step_def
          add2_def min_axis0_def block_corners_def scale2_def min2_def)
  next
    case (swapped b c)
    then have o: "(b = 1 \<or> b = -1) \<and> (c = 1 \<or> c = -1)" by (auto dest: abs1_cases)
    have 1: "ss_vec_yx g = rev2 (around32 (xy (ss_vec f)))
       \<and> fs_vec_yx g = rev2 (around32 (xy (fs_vec f)))
       \<and> \<not> transposed g \<and> pixel_dims g = (ss_pixels f, fs_pixels f)
       \<and> ss_order g = b \<and> fs_order g = c
       \<and> ss_pixels_yx g = ss_pixels f \<and> fs_pixels_yx g = fs_pixels f
       \<and> opp_corner_idx g = add2 (corner_idx g) (pixel_dims g)"
      using o swapped d(2)
      by (auto simp: GridGeometryFragment_def Let_def rev2_def split: sum.splits)
    have 2: "fits_int32 f \<Longrightarrow> corner_idx g =
        add2 (rev2 (around32 (xy (corner_pos f)))) (min b 0 * ss_pixels f, min c 0 * fs_pixels f)"
      using o swapped e by (auto simp: grid_fragment_exact_def Let_def rev2_def)
    show ?thesis using o 1 2 swapped
      by (auto simp: rev2_def row_step_def col_step_def
          add2_def min_axis0_def block_corners_def scale2_def min2_def)
  qed
qed

theorem grid_placement_rule_witness:
  "snap rotated_fragment = Inr rotated_fragment_snapped
   \<and> fst (fs_vec_yx rotated_fragment_snapped) \<noteq> 0
   \<and> fits_int32 rotated_fragment
   \<and> 0 \<le> ss_pixels rotated_fragment \<and> 0 \<le> fs_pixels rotated_fragment
   \<and> transposed rotated_fragment_snapped
   \<and> pixel_dims rotated_fragment_snapped = (fs_pixels rotated_fragment, ss_pixels rotated_fragment)
   \<and> corner_idx rotated_fragment_snapped =
       min_axis0 (block_corners (rev2 (around32 (xy (corner_pos rotated_fragment))))
                    rotated_fragment_snapped)
   \<and> opp_corner_idx rotated_fragment_snapped =
       add2 (corner_idx rotated_fragment_snapped) (pixel_dims rotated_fragment_snapped)"
proof -
  have h: "snap rotated_fragment = Inr rotated_fragment_snapped" by code_simp
  have v: "fst (fs_vec_yx rotated_fragment_snapped) \<noteq> 0" by code_simp
  have r: "fits_int32 rotated_fragment" by code_simp
  have p: "0 \<le> ss_pixels rotated_fragment \<and> 0 \<le> fs_pixels rotated_fragment" by code_simp
  from grid_placement_rule[OF h] v r p h show ?thesis by blast
qed

subsection \<open>C2: canvas size and centre offset\<close>

text \<open>
  Claim C2. For every snapped geometry with at least one tile, made by snapping fragments
  whose pixel extents are not negative, \<open>_get_dimensions\<close> returns as size the
  element-wise maximum of all \<open>opp_corner_idx\<close> minus the element-wise minimum of all
  \<open>corner_idx\<close>, and as centre the negated element-wise minimum of all \<open>corner_idx\<close>.
  The function reads the tiles only; whatever data the fast assembler is given, the centre
  it returns and the last two axes of its output are these.
\<close>

theorem canvas_dimensions:
  assumes "snap_modules mods = Inr tiles"
    and "concat mods \<noteq> []"
    and "\<forall>f \<in> set (concat mods). 0 \<le> ss_pixels f \<and> 0 \<le> fs_pixels f"
  shows "get_dimensions_snapped tiles =
           Inr (sub2 (max_axis0 (map opp_corner_idx (concat tiles)))
                     (min_axis0 (map corner_idx (concat tiles))),
                neg2 (min_axis0 (map corner_idx (concat tiles))))
       \<and> (\<forall>nan det data out centre.
            position_modules nan \<lparr>sg_modules = tiles, sg_geom = det\<rparr> data = Inr (out, centre) \<longrightarrow>
              centre = neg2 (min_axis0 (map corner_idx (concat tiles)))
              \<and> shape out = leading 3 (shape data) @
                  map nat [fst (max_axis0 (map opp_corner_idx (concat tiles))) - fst (min_axis0 (map corner_idx (concat tiles))),
                           snd (max_axis0 (map opp_corner_idx (concat tiles))) - snd (min_axis0 (map corner_idx (concat tiles)))])"
proof -
  from list_all2_concat_nonempty[OF snap_modules_rel[OF assms(1)] assms(2)]
  have ne: "concat tiles \<noteq> []" .
  have le: "\<forall>t \<in> set (concat tiles). le2 (corner_idx t) (opp_corner_idx t)"
  proof
    fix t assume "t \<in> set (concat tiles)"
    from snapped_tile_origin[OF assms(1) this] obtain f where "f \<in> set (concat mods)" "snap f = Inr t"
      by blast
    with assms(3) show "le2 (corner_idx t) (opp_corner_idx t)"
      by (auto intro: snap_corner_le_opp)
  qed
  have g: "get_dimensions_snapped tiles =
           Inr (sub2 (max_axis0 (map opp_corner_idx (concat tiles)))
                     (min_axis0 (map corner_idx (concat tiles))),
                neg2 (min_axis0 (map corner_idx (concat tiles))))"
    using ne by (simp add: get_dimensions_snapped_eq min_all_corners[OF ne le] max_all_corners[OF ne le])
  show ?thesis
  proof (intro conjI allI impI)
    show "get_dimensions_snapped tiles =
           Inr (sub2 (max_axis0 (map opp_corner_idx (concat tiles)))
                     (min_axis0 (map corner_idx (concat tiles))),
                neg2 (min_axis0 (map corner_idx (concat tiles))))" by (rule g)
  next
    fix nan :: 'a and det data out centre
    assume "position_modules nan \<lparr>sg_modules = tiles, sg_geom = det\<rparr> data = Inr (out, centre)"
    from position_modules_InrD(2)[OF this] g
    show "centre = neg2 (min_axis0 (map corner_idx (concat tiles)))"
      and "shape out = leading 3 (shape data) @
                  map nat [fst (max_axis0 (map opp_corner_idx (concat tiles))) - fst (min_axis0 (map corner_idx (concat tiles))),
                           snd (max_axis0 (map opp_corner_idx (concat tiles))) - snd (min_axis0 (map corner_idx (concat tiles)))]"
      by (auto simp: sub2_def)
  qed
qed

theorem canvas_dimensions_witness:
  "snap_modules two_modules = Inr two_modules_snapped
   \<and> concat two_modules \<noteq> []
   \<and> get_dimensions_snapped two_modules_snapped = Inr ((288, 520), (160, 0))"
proof -
  have h: "snap_modules two_modules = Inr two_modules_snapped" by code_simp
  have n: "concat two_modules \<noteq> []" by code_simp
  have p: "\<forall>f \<in> set (concat two_modules). 0 \<le> ss_pixels f \<and> 0 \<le> fs_pixels f" by code_simp
  have v: "sub2 (max_axis0 (map opp_corner_idx (concat two_modules_snapped)))
                (min_axis0 (map corner_idx (concat two_modules_snapped))) = (288, 520)"
    "neg2 (min_axis0 (map corner_idx (concat two_modules_snapped))) = (160, 0)"
    by code_simp+
  from canvas_dimensions[OF h n p]
  have "get_dimensions_snapped two_modules_snapped = Inr ((288, 520), (160, 0))"
    unfolding v by blast
  with h n show ?thesis by blast
qed

subsection \<open>C3: when snapping fails\<close>

text \<open>
  Claim C3 as stated fails: a fragment whose in-plane slow-scan vector is (0.9, 0.2)
  rounds to (1, 0), and with a fast-scan vector along y it snaps.
\<close>

theorem snap_tilted_counterexample:
  "xy (ss_vec tilted_fragment) = (9 / 10, 2 / 10)
   \<and> snap tilted_fragment = Inr tilted_fragment_snapped"
  by code_simp

lemma round_abs_doubleton:
  assumes "rounds_in_int32 u" "rounds_in_int32 v"
  shows "axis_aligned (around32 u) (around32 v) \<longleftrightarrow> {round_abs u, round_abs v} = {(1, 0), (0, 1)}"
proof -
  from assms have r: "int32_range (around (fst u))" "int32_range (around (snd u))"
    "int32_range (around (fst v))" "int32_range (around (snd v))"
    by (auto simp: rounds_in_int32_def)
  have e: "around32 u = (around (fst u), around (snd u))" "around32 v = (around (fst v), around (snd v))"
    using r by (simp_all add: around32_def astype_int32_id)
  have "{round_abs u, round_abs v} = {(1, 0), (0, 1)} \<longleftrightarrow>
     (\<bar>around (fst u)\<bar> = 1 \<and> around (snd u) = 0 \<and> around (fst v) = 0 \<and> \<bar>around (snd v)\<bar> = 1) \<or>
     (around (fst u) = 0 \<and> \<bar>around (snd u)\<bar> = 1 \<and> \<bar>around (fst v)\<bar> = 1 \<and> around (snd v) = 0)"
    unfolding round_abs_def doubleton_eq_iff prod.inject abs_eq_0 by blast
  then show ?thesis unfolding e axis_aligned_iff[OF r] by simp
qed

text \<open>
  Claim C3, amended. For a fragment whose rounded in-plane vectors fit 32 bits, \<open>snap\<close>
  fails with the assertion error exactly when the set of the absolute rounded in-plane
  vectors differs from \<open>{(1, 0), (0, 1)}\<close>. When the set equals it, \<open>snap\<close> goes on to
  build the descriptor: it returns one, or raises the overflow error of an extent that
  does not fit 32 bits; for extents that fit 32 bits it returns a descriptor exactly when
  the set equals \<open>{(1, 0), (0, 1)}\<close>. Vectors are rounded to the nearest integer first,
  so a vector such as (0.9, 0.2) counts as (1, 0).
\<close>

theorem snap_fails_iff:
  assumes "rounds_in_int32 (xy (ss_vec f))" "rounds_in_int32 (xy (fs_vec f))"
  shows "(snap f = Inl AssertionError \<longleftrightarrow>
            {round_abs (xy (ss_vec f)), round_abs (xy (fs_vec f))} \<noteq> {(1, 0), (0, 1)})
       \<and> ((\<exists>g. snap f = Inr g) \<or> snap f = Inl OverflowError \<longleftrightarrow>
            {round_abs (xy (ss_vec f)), round_abs (xy (fs_vec f))} = {(1, 0), (0, 1)})
       \<and> (int32_range (ss_pixels f) \<and> int32_range (fs_pixels f) \<longrightarrow>
            ((\<exists>g. snap f = Inr g) \<longleftrightarrow>
               {round_abs (xy (ss_vec f)), round_abs (xy (fs_vec f))} = {(1, 0), (0, 1)}))"
proof -
  let ?G = "GridGeometryFragment (rev2 (around32 (xy (corner_pos f))))
      (rev2 (around32 (xy (ss_vec f)))) (rev2 (around32 (xy (fs_vec f))))
      (ss_pixels f) (fs_pixels f)"
  have s: "snap f = (if {round_abs (xy (ss_vec f)), round_abs (xy (fs_vec f))} = {(1, 0), (0, 1)}
                     then ?G else Inl AssertionError)"
    using round_abs_doubleton[OF assms] unfolding snap_def Let_def by simp
  have n: "?G \<noteq> Inl AssertionError" by (rule GridGeometryFragment_not_assert)
  have r: "?G = Inl OverflowError \<or> (\<exists>g. ?G = Inr g)" by (rule GridGeometryFragment_results)
  have i: "int32_range (ss_pixels f) \<and> int32_range (fs_pixels f) \<Longrightarrow> \<exists>g. ?G = Inr g"
    by (simp add: GridGeometryFragment_Inr)
  show ?thesis unfolding s using n r i by auto
qed

theorem snap_fails_iff_witness:
  "rounds_in_int32 (xy (ss_vec tilted_fragment)) \<and> rounds_in_int32 (xy (fs_vec tilted_fragment))
   \<and> {round_abs (xy (ss_vec tilted_fragment)), round_abs (xy (fs_vec tilted_fragment))} = {(1, 0), (0, 1)}
   \<and> snap tilted_fragment \<noteq> Inl AssertionError"
proof -
  have a: "rounds_in_int32 (xy (ss_vec tilted_fragment))" by code_simp
  have b: "rounds_in_int32 (xy (fs_vec tilted_fragment))" by code_simp
  have c: "round_abs (xy (ss_vec tilted_fragment)) = (1, 0)" by code_simp
  have d: "round_abs (xy (fs_vec tilted_fragment)) = (0, 1)" by code_simp
  from snap_fails_iff[OF a b] a b show ?thesis unfolding c d by simp
qed

subsection \<open>C4: when fast assembly fails\<close>

text \<open>
  Claim C4. For a snapped geometry of the detector's kind (at most 16 modules, at most the
  detector's number of tiles in each, at least one tile, every tile of the detector's tile
  extents) and every input array: fast assembly fails if and only if the last three
  dimensions of the input differ from the detector's raw shape, and the failure is the
  assertion error, returned instead of any array. When the dimensions match it returns an
  array whose shape is the input's leading batch dimensions, unchanged, followed by the
  canvas rows and columns, together with the centre of \<open>_get_dimensions\<close>.
\<close>

theorem fast_assembly_fails_iff:
  assumes "well_formed det mods" "snap_modules mods = Inr tiles"
  shows "((\<exists>e. position_modules nan \<lparr>sg_modules = tiles, sg_geom = det\<rparr> data = Inl e)
            \<longleftrightarrow> trailing 3 (shape data) \<noteq> expected_data_shape det)
       \<and> (position_modules nan \<lparr>sg_modules = tiles, sg_geom = det\<rparr> data = Inl AssertionError
            \<longleftrightarrow> trailing 3 (shape data) \<noteq> expected_data_shape det)
       \<and> (trailing 3 (shape data) = expected_data_shape det \<longrightarrow>
            (\<exists>out canvas centre.
               position_modules nan \<lparr>sg_modules = tiles, sg_geom = det\<rparr> data = Inr (out, centre)
               \<and> get_dimensions_snapped tiles = Inr (canvas, centre)
               \<and> shape out = leading 3 (shape data) @ [nat (fst canvas), nat (snd canvas)]))"
proof (cases "trailing 3 (shape data) = expected_data_shape det")
  case True
  from position_modules_ok[OF assms True, of nan] show ?thesis using True by auto
next
  case False
  then have "position_modules nan \<lparr>sg_modules = tiles, sg_geom = det\<rparr> data = Inl AssertionError"
    by (simp add: position_modules_def)
  then show ?thesis using False by simp
qed

theorem fast_assembly_fails_iff_witness:
  "well_formed AGIPD_1M two_modules
   \<and> snap_modules two_modules = Inr two_modules_snapped
   \<and> trailing 3 (shape batch_data) = expected_data_shape AGIPD_1M
   \<and> get_dimensions_snapped two_modules_snapped = Inr ((288, 520), (160, 0))
   \<and> map_sum id (\<lambda>r. (shape (fst r), snd r))
        (position_modules (- 1) \<lparr>sg_modules = two_modules_snapped, sg_geom = AGIPD_1M\<rparr> batch_data)
       = Inr ([3, 288, 520], (160, 0))"
proof -
  have w: "well_formed AGIPD_1M two_modules" by code_simp
  have h: "snap_modules two_modules = Inr two_modules_snapped" by code_simp
  have t: "trailing 3 (shape batch_data) = expected_data_shape AGIPD_1M" by code_simp
  have g: "get_dimensions_snapped two_modules_snapped = Inr ((288, 520), (160, 0))" by code_simp
  have l: "leading 3 (shape batch_data) = [3]" by code_simp
  from fast_assembly_fails_iff[OF w h, of "- 1" batch_data] t obtain out canvas centre where
    p: "position_modules (- 1) \<lparr>sg_modules = two_modules_snapped, sg_geom = AGIPD_1M\<rparr> batch_data
          = Inr (out, centre)"
    and c: "get_dimensions_snapped two_modules_snapped = Inr (canvas, centre)"
    and s: "shape out = leading 3 (shape batch_data) @ [nat (fst canvas), nat (snd canvas)]"
    by blast
  from c g have "canvas = (288, 520)" "centre = (160, 0)" by simp_all
  with p s l w h t g show ?thesis by simp
qed

subsection \<open>C5: what the two assembly entry points accept\<close>

text \<open>
  Claim C5 as stated fails for the interpolating assembler: it asserts that the shape of
  its input is exactly (16, 512, 128), so an input with a leading batch axis, whose last
  three axes are the detector's, is refused.
\<close>

theorem interpolate_batch_counterexample:
  "trailing 3 (shape batch_data) = expected_data_shape AGIPD_1M
   \<and> position_modules_interpolate nearest_sample max_sample (np_full [] 0) sample_geometry batch_data
       = Inl AssertionError"
  by (simp add: position_modules_interpolate_def batch_data_def trailing_def)

text \<open>
  Claim C5, amended. The fast entry point, on a geometry of the detector's kind that
  snaps, accepts every input whose last three axes are the detector's raw shape, with any
  leading batch axes, and returns the assembled array, whose shape is the batch axes
  followed by the canvas, and the integer (row, column) centre. The interpolating entry
  point (of the AGIPD geometry) accepts only an input of shape exactly (16, 512, 128),
  with no batch axis, and fails with the assertion error on every other shape; on such
  an input, for a geometry with at least one tile whose tiles all have independent
  in-plane direction vectors, it returns an array of the canvas shape and the integer
  (row, column) centre of its own \<open>_get_dimensions\<close>.
\<close>

theorem assembly_entry_points:
  assumes "well_formed det mods" "snap_modules mods = Inr tiles"
  shows "(trailing 3 (shape data) = expected_data_shape det \<longrightarrow>
            (\<exists>out canvas centre.
               fst (position_modules_fast nan (new_geometry det mods) data) = Inr (out, centre)
               \<and> get_dimensions_snapped tiles = Inr (canvas, centre)
               \<and> shape out = leading 3 (shape data) @ [nat (fst canvas), nat (snd canvas)]))
       \<and> (shape data \<noteq> [16, 512, 128] \<longrightarrow>
            position_modules_interpolate smp nmx un geom data = Inl AssertionError)
       \<and> (shape data = [16, 512, 128] \<and> concat (modules geom) \<noteq> []
            \<and> (\<forall>t \<in> set (concat (modules geom)). inplane_det t \<noteq> 0) \<longrightarrow>
            (\<exists>out canvas centre.
               position_modules_interpolate smp nmx un geom data = Inr (out, centre)
               \<and> get_dimensions (modules geom) = Inr (canvas, centre)
               \<and> shape out = [nat (fst canvas), nat (snd canvas)]))"
proof (intro conjI impI)
  assume "trailing 3 (shape data) = expected_data_shape det"
  from position_modules_ok[OF assms this, of nan]
  show "\<exists>out canvas centre.
               fst (position_modules_fast nan (new_geometry det mods) data) = Inr (out, centre)
               \<and> get_dimensions_snapped tiles = Inr (canvas, centre)
               \<and> shape out = leading 3 (shape data) @ [nat (fst canvas), nat (snd canvas)]"
    unfolding position_modules_fast_fresh[OF assms(2)] .
next
  assume "shape data \<noteq> [16, 512, 128]"
  then show "position_modules_interpolate smp nmx un geom data = Inl AssertionError"
    by (simp add: position_modules_interpolate_def)
next
  assume "shape data = [16, 512, 128] \<and> concat (modules geom) \<noteq> []
            \<and> (\<forall>t \<in> set (concat (modules geom)). inplane_det t \<noteq> 0)"
  then show "\<exists>out canvas centre.
               position_modules_interpolate smp nmx un geom data = Inr (out, centre)
               \<and> get_dimensions (modules geom) = Inr (canvas, centre)
               \<and> shape out = [nat (fst canvas), nat (snd canvas)]"
    using position_modules_interpolate_ok by blast
qed

theorem assembly_entry_points_witness:
  "well_formed AGIPD_1M two_modules
   \<and> snap_modules two_modules = Inr two_modules_snapped
   \<and> trailing 3 (shape batch_data) = expected_data_shape AGIPD_1M
   \<and> get_dimensions_snapped two_modules_snapped = Inr ((288, 520), (160, 0))
   \<and> map_sum id (\<lambda>r. (shape (fst r), snd r))
        (fst (position_modules_fast (- 1) (new_geometry AGIPD_1M two_modules) batch_data))
       = Inr ([3, 288, 520], (160, 0))"
proof -
  have w: "well_formed AGIPD_1M two_modules" by code_simp
  have h: "snap_modules two_modules = Inr two_modules_snapped" by code_simp
  have t: "trailing 3 (shape batch_data) = expected_data_shape AGIPD_1M" by code_simp
  have g: "get_dimensions_snapped two_modules_snapped = Inr ((288, 520), (160, 0))" by code_simp
  have l: "leading 3 (shape batch_data) = [3]" by code_simp
  from assembly_entry_points[OF w h, of batch_data "- 1"] t obtain out canvas centre where
    p: "fst (position_modules_fast (- 1) (new_geometry AGIPD_1M two_modules) batch_data)
          = Inr (out, centre)"
    and c: "get_dimensions_snapped two_modules_snapped = Inr (canvas, centre)"
    and s: "shape out = leading 3 (shape batch_data) @ [nat (fst canvas), nat (snd canvas)]"
    by blast
  from c g have "canvas = (288, 520)" "centre = (160, 0)" by simp_all
  with p s l w h t g show ?thesis by simp
qed

subsection \<open>C6: the idealised AGIPD layout\<close>

text \<open>
  Claim C6 as stated fails in its second half: the tiles of a module are laid out along
  the module's slow-scan axis, not its fast-scan axis. With the sample quadrant positions,
  tile 1 of module 0 is 66 pixels from tile 0 along x, which is the slow-scan direction
  (1, 0, 0); the fast-scan direction is (0, -1, 0).
\<close>

theorem tile_offset_counterexample:
  "from_quad_positions sample_quad_pos 2 29 = Inr sample_geometry
   \<and> corner_pos (tile_at sample_geometry 0 0) = (- 525, 625, 0)
   \<and> corner_pos (tile_at sample_geometry 0 1) = (- 459, 625, 0)
   \<and> fs_vec (tile_at sample_geometry 0 0) = (0, - 1, 0)
   \<and> corner_pos (tile_at sample_geometry 0 1) \<noteq>
       vadd (corner_pos (tile_at sample_geometry 0 0))
            (vscale (fs_vec (tile_at sample_geometry 0 0)) (1 * (64 + 2)))"
  by code_simp

lemma tile_at_from_quad_positions:
  assumes "from_quad_positions quad_pos asic_gap panel_gap = Inr g" "p < 16" "a < 8"
  shows "tile_at g p a = agipd_tile quad_pos asic_gap panel_gap p a"
  using assms unfolding from_quad_positions_def tile_at_def new_geometry_def
  by (auto split: if_splits)

text \<open>
  Claim C6, amended. For every choice of four quadrant positions and every pair of gaps,
  in particular \<open>asic_gap = 2\<close> and \<open>panel_gap = 29\<close>, the idealised layout places the
  corner of module 0, tile 0 at the first quadrant position (with z = 0); and in every
  module \<open>p\<close>, the corner of tile \<open>a\<close> is the corner of tile 0 moved by
  \<open>a * (64 + asic_gap)\<close> along the module's slow-scan vector. Coordinates are exact
  (rational) numbers here.
\<close>

theorem tile_offset_along_slow_scan:
  assumes "from_quad_positions quad_pos asic_gap panel_gap = Inr g" "p < 16" "a < 8"
  shows "corner_pos (tile_at g 0 0) = (fst (quad_pos ! 0), snd (quad_pos ! 0), 0)
       \<and> corner_pos (tile_at g p a) =
           vadd (corner_pos (tile_at g p 0))
                (vscale (ss_vec (tile_at g p 0)) (of_nat a * (64 + asic_gap)))"
proof -
  have z: "(0::nat) < 16" "(0::nat) < 8" by simp_all
  show ?thesis
    unfolding tile_at_from_quad_positions[OF assms]
      tile_at_from_quad_positions[OF assms(1) z]
      tile_at_from_quad_positions[OF assms(1,2) z(2)]
    by (simp add: agipd_tile_def Let_def vadd_def vscale_def quads_x_orientation_def algebra_simps)
qed

theorem tile_offset_along_slow_scan_witness:
  "from_quad_positions sample_quad_pos 2 29 = Inr sample_geometry
   \<and> corner_pos (tile_at sample_geometry 0 0) = (fst (sample_quad_pos ! 0), snd (sample_quad_pos ! 0), 0)
   \<and> corner_pos (tile_at sample_geometry 0 3) =
       vadd (corner_pos (tile_at sample_geometry 0 0))
            (vscale (ss_vec (tile_at sample_geometry 0 0)) (of_nat 3 * (64 + 2)))"
proof -
  have h: "from_quad_positions sample_quad_pos 2 29 = Inr sample_geometry" by code_simp
  have p: "(0::nat) < 16" and a: "(3::nat) < 8" by simp_all
  from tile_offset_along_slow_scan[OF h p a] h show ?thesis by blast
qed

subsection \<open>C7: the corners of a pixel in the distortion array\<close>

lemma write_tile_single:
  assumes "ss_pixels tile = 64"
  shows "\<exists>darr. distortion_unshifted psize [[tile]] = Inr darr
     \<and> (\<forall>idx. idx ! 0 < 64 \<longrightarrow>
           item darr idx = zyx (pixel_corner psize tile (idx ! 0) (idx ! 1) (idx ! 2)) (idx ! 3))"
  using assms
  by (simp add: distortion_unshifted_def write_tile_def np_full_def slice_bound_def Let_def)

lemma pixel_corner_formula:
  "pixel_corner psize tile i j k = corner_formula psize tile i j k"
  by (simp add: pixel_corner_def corner_formula_def Let_def vadd_def vscale_def algebra_simps)

lemma xyz_at_single:
  assumes "ss_pixels tile = 64" "i < 64"
  shows "\<exists>darr. distortion_unshifted psize [[tile]] = Inr darr
            \<and> xyz_at darr i j k = pixel_corner psize tile i j k"
proof -
  from write_tile_single[OF assms(1), of psize] obtain darr where
    d: "distortion_unshifted psize [[tile]] = Inr darr"
    and r: "\<And>idx. idx ! 0 < 64 \<Longrightarrow>
           item darr idx = zyx (pixel_corner psize tile (idx ! 0) (idx ! 1) (idx ! 2)) (idx ! 3)"
    by blast
  have "xyz_at darr i j k = pixel_corner psize tile i j k"
    using assms(2) by (simp add: xyz_at_def r zyx_def)
  with d show ?thesis by blast
qed

text \<open>
  Claim C7. For a geometry of one tile of 64 rows, before the final shift of the origin,
  the distortion array holds for corner \<open>k\<close> of pixel \<open>(i, j)\<close> the point
  \<open>corner_pos + ss_index * ss_vec + fs_index * fs_vec\<close> taken at the pixel's index plus
  the \<open>k\<close>-th of the four local offsets (-0.5, -0.5), (0.5, -0.5), (0.5, 0.5),
  (-0.5, 0.5), times the pixel size. For \<open>ss_vec = (1, 0, 0)\<close>, \<open>fs_vec = (0, 1, 0)\<close>,
  \<open>corner_pos = (0, 0, 0)\<close> and pixel size 1, the four corners of pixel (0, 0) are, in
  (x, y) and in this order, (-0.5, -0.5), (0.5, -0.5), (0.5, 0.5), (-0.5, 0.5).
\<close>

theorem distortion_pixel_corners:
  assumes "ss_pixels tile = 64" "i < 64"
  shows "(\<exists>darr. distortion_unshifted psize [[tile]] = Inr darr
            \<and> xyz_at darr i j k = corner_formula psize tile i j k)
       \<and> (\<exists>darr. distortion_unshifted 1 [[single_tile]] = Inr darr
            \<and> map (\<lambda>k. (fst (xyz_at darr 0 0 k), fst (snd (xyz_at darr 0 0 k)))) [0, 1, 2, 3]
                = [(- 1 / 2, - 1 / 2), (1 / 2, - 1 / 2), (1 / 2, 1 / 2), (- 1 / 2, 1 / 2)])"
proof
  show "\<exists>darr. distortion_unshifted psize [[tile]] = Inr darr
            \<and> xyz_at darr i j k = corner_formula psize tile i j k"
    using xyz_at_single[OF assms] by (simp add: pixel_corner_formula)
  have s: "ss_pixels single_tile = 64" by (simp add: single_tile_def)
  from write_tile_single[OF s, of 1] obtain darr where
    d: "distortion_unshifted 1 [[single_tile]] = Inr darr"
    and r: "\<And>idx. idx ! 0 < 64 \<Longrightarrow>
           item darr idx = zyx (pixel_corner 1 single_tile (idx ! 0) (idx ! 1) (idx ! 2)) (idx ! 3)"
    by blast
  have m: "map (\<lambda>k. (fst (xyz_at darr 0 0 k), fst (snd (xyz_at darr 0 0 k)))) [0, 1, 2, 3]
                = [(- 1 / 2, - 1 / 2), (1 / 2, - 1 / 2), (1 / 2, 1 / 2), (- 1 / 2, 1 / 2)]"
    by (simp add: xyz_at_def r zyx_def pixel_corner_def single_tile_def Let_def vadd_def vscale_def
        corner_ss_offsets_def corner_fs_offsets_def)
  show "\<exists>darr. distortion_unshifted 1 [[single_tile]] = Inr darr
            \<and> map (\<lambda>k. (fst (xyz_at darr 0 0 k), fst (snd (xyz_at darr 0 0 k)))) [0, 1, 2, 3]
                = [(- 1 / 2, - 1 / 2), (1 / 2, - 1 / 2), (1 / 2, 1 / 2), (- 1 / 2, 1 / 2)]"
    by (rule exI[of _ darr]) (simp only: d m simp_thms)
qed

theorem distortion_pixel_corners_witness:
  "ss_pixels rotated_fragment = 64 \<and> (5 :: nat) < 64
   \<and> (\<exists>darr. distortion_unshifted (1 / 5000) [[rotated_fragment]] = Inr darr
         \<and> xyz_at darr 5 7 2 = corner_formula (1 / 5000) rotated_fragment 5 7 2)"
proof -
  have a: "ss_pixels rotated_fragment = 64" by code_simp
  have b: "(5 :: nat) < 64" by simp
  from distortion_pixel_corners[OF a b, of "1 / 5000" 7 2] a b show ?thesis by blast
qed

subsection \<open>C8: bounding rectangles before and after snapping\<close>

text \<open>
  Claim C8 as stated fails: unit vectors turned by about 16 degrees, (0.96, 0.28) and
  (-0.28, 0.96), round to the axes, so the fragment snaps; its polygon reaches x = -35.84
  while the snapped block starts at x = 0.
\<close>

theorem snapped_bbox_counterexample:
  "snap turned_fragment = Inr turned_fragment_snapped
   \<and> \<not> bbox_within 1 (grid_bbox turned_fragment_snapped) (polygon_bbox turned_fragment)"
  by code_simp

lemma around_close: "\<bar>of_int (around x) - x\<bar> \<le> (1 / 2 :: rat)"
  using around_diff[of x] by (simp add: abs_minus_commute)

lemma min_close:
  fixes a b c d e :: rat
  assumes "\<bar>a - c\<bar> \<le> e" "\<bar>b - d\<bar> \<le> e"
  shows "\<bar>min a b - min c d\<bar> \<le> e"
  using assms by (auto simp: min_def abs_if split: if_splits)

lemma max_close:
  fixes a b c d e :: rat
  assumes "\<bar>a - c\<bar> \<le> e" "\<bar>b - d\<bar> \<le> e"
  shows "\<bar>max a b - max c d\<bar> \<le> e"
  using assms by (auto simp: max_def abs_if split: if_splits)

lemma rmin_list4_close:
  assumes "\<bar>q1 - p1\<bar> \<le> e" "\<bar>q2 - p2\<bar> \<le> e" "\<bar>q3 - p3\<bar> \<le> e" "\<bar>q4 - p4\<bar> \<le> e"
  shows "\<bar>rmin_list [q1, q2, q3, q4] - rmin_list [p1, p2, p3, p4]\<bar> \<le> e"
  unfolding rmin_list_def using assms by (simp add: min_close)

lemma rmax_list4_close:
  assumes "\<bar>q1 - p1\<bar> \<le> e" "\<bar>q2 - p2\<bar> \<le> e" "\<bar>q3 - p3\<bar> \<le> e" "\<bar>q4 - p4\<bar> \<le> e"
  shows "\<bar>rmax_list [q1, q2, q3, q4] - rmax_list [p1, p2, p3, p4]\<bar> \<le> e"
  unfolding rmax_list_def using assms by (simp add: max_close)

lemma corner_deviation:
  fixes c r s rs f' rf S F :: rat
  assumes "\<bar>r - c\<bar> \<le> 1 / 2" "0 \<le> S" "0 \<le> F" "S * \<bar>s - rs\<bar> + F * \<bar>f' - rf\<bar> \<le> t"
  shows "\<bar>r - c\<bar> \<le> 1 / 2 + t"
    and "\<bar>(r + rf * F) - (c + f' * F)\<bar> \<le> 1 / 2 + t"
    and "\<bar>(r + rs * S + rf * F) - (c + s * S + f' * F)\<bar> \<le> 1 / 2 + t"
    and "\<bar>(r + rs * S) - (c + s * S)\<bar> \<le> 1 / 2 + t"
proof -
  have a: "\<bar>(rs - s) * S\<bar> = S * \<bar>s - rs\<bar>" "\<bar>(rf - f') * F\<bar> = F * \<bar>f' - rf\<bar>"
    using assms(2,3) by (simp_all add: abs_mult abs_minus_commute mult.commute)
  have p: "0 \<le> S * \<bar>s - rs\<bar>" "0 \<le> F * \<bar>f' - rf\<bar>" using assms(2,3) by simp_all
  have e: "(r + rf * F) - (c + f' * F) = (r - c) + (rf - f') * F"
    "(r + rs * S + rf * F) - (c + s * S + f' * F) = (r - c) + (rs - s) * S + (rf - f') * F"
    "(r + rs * S) - (c + s * S) = (r - c) + (rs - s) * S"
    by (simp_all add: algebra_simps)
  show "\<bar>r - c\<bar> \<le> 1 / 2 + t" using assms(1,4) p by linarith
  show "\<bar>(r + rf * F) - (c + f' * F)\<bar> \<le> 1 / 2 + t"
    unfolding e using assms(1,4) p a abs_triangle_ineq[of "r - c" "(rf - f') * F"] by linarith
  show "\<bar>(r + rs * S + rf * F) - (c + s * S + f' * F)\<bar> \<le> 1 / 2 + t"
    unfolding e using assms(1,4) p a abs_triangle_ineq[of "r - c" "(rs - s) * S"]
      abs_triangle_ineq[of "r - c + (rs - s) * S" "(rf - f') * F"] by linarith
  show "\<bar>(r + rs * S) - (c + s * S)\<bar> \<le> 1 / 2 + t"
    unfolding e using assms(1,4) p a abs_triangle_ineq[of "r - c" "(rs - s) * S"] by linarith
qed

lemma grid_bbox_exact:
  assumes "(sv = (a, 0) \<and> fv = (0, d)) \<or> (sv = (0, a) \<and> fv = (d, 0))"
    and "a = 1 \<or> a = - 1" "d = 1 \<or> d = - 1" "0 \<le> S" "0 \<le> F"
  shows "grid_bbox (grid_fragment_exact (ry, rx) (rev2 sv) (rev2 fv) S F) =
     (rmin_list [of_int rx, of_int rx + of_int (fst fv) * of_int F,
                 of_int rx + of_int (fst sv) * of_int S + of_int (fst fv) * of_int F,
                 of_int rx + of_int (fst sv) * of_int S],
      rmin_list [of_int ry, of_int ry + of_int (snd fv) * of_int F,
                 of_int ry + of_int (snd sv) * of_int S + of_int (snd fv) * of_int F,
                 of_int ry + of_int (snd sv) * of_int S],
      rmax_list [of_int rx, of_int rx + of_int (fst fv) * of_int F,
                 of_int rx + of_int (fst sv) * of_int S + of_int (fst fv) * of_int F,
                 of_int rx + of_int (fst sv) * of_int S],
      rmax_list [of_int ry, of_int ry + of_int (snd fv) * of_int F,
                 of_int ry + of_int (snd sv) * of_int S + of_int (snd fv) * of_int F,
                 of_int ry + of_int (snd sv) * of_int S])"
proof -
  have q: "0 \<le> (of_int S :: rat)" "0 \<le> (of_int F :: rat)" using assms(4,5) by simp_all
  note defs = grid_fragment_exact_def Let_def grid_bbox_def add2_def rev2_def
    rmin_list_def rmax_list_def
  from assms(1) show ?thesis
  proof (elim disjE conjE)
    assume v: "sv = (a, 0)" "fv = (0, d)"
    from assms(2,3) show ?thesis
    proof (elim disjE)
      assume "a = 1" "d = 1" then show ?thesis using q by (simp add: v defs)
    next
      assume "a = 1" "d = - 1" then show ?thesis using q by (simp add: v defs)
    next
      assume "a = - 1" "d = 1" then show ?thesis using q by (simp add: v defs)
    next
      assume "a = - 1" "d = - 1" then show ?thesis using q by (simp add: v defs)
    qed
  next
    assume v: "sv = (0, a)" "fv = (d, 0)"
    from assms(2,3) show ?thesis
    proof (elim disjE)
      assume "a = 1" "d = 1" then show ?thesis using q by (simp add: v defs)
    next
      assume "a = 1" "d = - 1" then show ?thesis using q by (simp add: v defs)
    next
      assume "a = - 1" "d = 1" then show ?thesis using q by (simp add: v defs)
    next
      assume "a = - 1" "d = - 1" then show ?thesis using q by (simp add: v defs)
    qed
  qed
qed

lemma bbox_within_mono: "bbox_within d a b \<Longrightarrow> d \<le> e \<Longrightarrow> bbox_within e a b"
  by (auto simp: bbox_within_def split: prod.splits)

text \<open>
  Claim C8, amended. Call tilt of a fragment the distance, along x or y, by which rounding
  its two direction vectors can move a corner of the tile: the larger over the two axes of
  \<open>ss_pixels * |ss - round ss| + fs_pixels * |fs - round fs|\<close>. For every fragment on
  which snapping succeeds, whose pixel extents are not negative and whose snapping stays
  within 32 bits, each side of the bounding rectangle of the snapped placement differs
  from the same side of the bounding rectangle of the unsnapped corner polygon by at most
  half a pixel plus the tilt; so by at most one pixel whenever the tilt is at most half a
  pixel.
\<close>

theorem snapped_bbox_close:
  assumes s: "snap f = Inr g"
    and r: "fits_int32 f"
    and p: "0 \<le> ss_pixels f" "0 \<le> fs_pixels f"
  shows "bbox_within (1 / 2 + tilt f) (grid_bbox g) (polygon_bbox f)
       \<and> (tilt f \<le> 1 / 2 \<longrightarrow> bbox_within 1 (grid_bbox g) (polygon_bbox f))"
proof -
  obtain cx cy cz where cp: "corner_pos f = (cx, cy, cz)" by (cases "corner_pos f") auto
  obtain sx sy sz where sv: "ss_vec f = (sx, sy, sz)" by (cases "ss_vec f") auto
  obtain fx fy fz where fv: "fs_vec f = (fx, fy, fz)" by (cases "fs_vec f") auto
  define S F :: rat where "S = of_int (ss_pixels f)" and "F = of_int (fs_pixels f)"
  have q: "0 \<le> S" "0 \<le> F" using p by (simp_all add: S_def F_def)
  have rc: "around32 (cx, cy) = (around cx, around cy)"
    using r by (simp add: fits_int32_def rounds_in_int32_def around32_def astype_int32_id cp xy_def)
  note d = snap_InrD[OF s]
  have al: "axis_aligned (around32 (sx, sy)) (around32 (fx, fy))"
    using d(1) by (simp add: sv fv xy_def)
  have g: "g = grid_fragment_exact (around cy, around cx) (rev2 (around32 (sx, sy)))
         (rev2 (around32 (fx, fy))) (ss_pixels f) (fs_pixels f)"
    using snap_fits_exact[OF s r] by (simp add: cp sv fv xy_def rc rev2_def)
  have rv: "around32 (sx, sy) = (around sx, around sy)" "around32 (fx, fy) = (around fx, around fy)"
    and ex: "\<exists>a d. ((around32 (sx, sy) = (a, 0) \<and> around32 (fx, fy) = (0, d))
                  \<or> (around32 (sx, sy) = (0, a) \<and> around32 (fx, fy) = (d, 0)))
              \<and> (a = 1 \<or> a = - 1) \<and> (d = 1 \<or> d = - 1)"
  proof -
    from al have "(around32 (sx, sy) = (around sx, around sy) \<and> around32 (fx, fy) = (around fx, around fy))
       \<and> (\<exists>a d. ((around32 (sx, sy) = (a, 0) \<and> around32 (fx, fy) = (0, d))
                  \<or> (around32 (sx, sy) = (0, a) \<and> around32 (fx, fy) = (d, 0)))
              \<and> (a = 1 \<or> a = - 1) \<and> (d = 1 \<or> d = - 1))"
    proof (cases rule: around32_aligned_cases)
      case (straight a d')
      then have o: "a = 1 \<or> a = - 1" "d' = 1 \<or> d' = - 1" by (auto dest: abs1_cases)
      from straight have "astype_int32 (around sx) = a" "astype_int32 (around sy) = 0"
        "astype_int32 (around fx) = 0" "astype_int32 (around fy) = d'"
        by (simp_all add: around32_def)
      then have e: "around sx = a" "around sy = 0" "around fx = 0" "around fy = d'"
        using o by (auto intro: astype_int32_small)
      have "around32 (sx, sy) = (around sx, around sy)" "around32 (fx, fy) = (around fx, around fy)"
        unfolding e by (rule straight)+
      with straight(1,2) o show ?thesis by blast
    next
      case (swapped b c)
      then have o: "b = 1 \<or> b = - 1" "c = 1 \<or> c = - 1" by (auto dest: abs1_cases)
      from swapped have "astype_int32 (around sx) = 0" "astype_int32 (around sy) = b"
        "astype_int32 (around fx) = c" "astype_int32 (around fy) = 0"
        by (simp_all add: around32_def)
      then have e: "around sx = 0" "around sy = b" "around fx = c" "around fy = 0"
        using o by (auto intro: astype_int32_small)
      have "around32 (sx, sy) = (around sx, around sy)" "around32 (fx, fy) = (around fx, around fy)"
        unfolding e by (rule swapped)+
      with swapped(1,2) o show ?thesis by blast
    qed
    then show "around32 (sx, sy) = (around sx, around sy)"
      "around32 (fx, fy) = (around fx, around fy)"
      "\<exists>a d. ((around32 (sx, sy) = (a, 0) \<and> around32 (fx, fy) = (0, d))
                  \<or> (around32 (sx, sy) = (0, a) \<and> around32 (fx, fy) = (d, 0)))
              \<and> (a = 1 \<or> a = - 1) \<and> (d = 1 \<or> d = - 1)"
      by blast+
  qed
  from ex obtain a d' where ad:
    "(around32 (sx, sy) = (a, 0) \<and> around32 (fx, fy) = (0, d'))
       \<or> (around32 (sx, sy) = (0, a) \<and> around32 (fx, fy) = (d', 0))"
    "a = 1 \<or> a = - 1" "d' = 1 \<or> d' = - 1" by blast
  have gb: "grid_bbox g =
     (rmin_list [of_int (around cx), of_int (around cx) + of_int (around fx) * F,
                 of_int (around cx) + of_int (around sx) * S + of_int (around fx) * F,
                 of_int (around cx) + of_int (around sx) * S],
      rmin_list [of_int (around cy), of_int (around cy) + of_int (around fy) * F,
                 of_int (around cy) + of_int (around sy) * S + of_int (around fy) * F,
                 of_int (around cy) + of_int (around sy) * S],
      rmax_list [of_int (around cx), of_int (around cx) + of_int (around fx) * F,
                 of_int (around cx) + of_int (around sx) * S + of_int (around fx) * F,
                 of_int (around cx) + of_int (around sx) * S],
      rmax_list [of_int (around cy), of_int (around cy) + of_int (around fy) * F,
                 of_int (around cy) + of_int (around sy) * S + of_int (around fy) * F,
                 of_int (around cy) + of_int (around sy) * S])"
    unfolding g S_def F_def using grid_bbox_exact[OF ad p, of "around cy" "around cx"]
    by (simp add: rv)
  have pb: "polygon_bbox f =
     (rmin_list [cx, cx + fx * F, cx + sx * S + fx * F, cx + sx * S],
      rmin_list [cy, cy + fy * F, cy + sy * S + fy * F, cy + sy * S],
      rmax_list [cx, cx + fx * F, cx + sx * S + fx * F, cx + sx * S],
      rmax_list [cy, cy + fy * F, cy + sy * S + fy * F, cy + sy * S])"
    by (simp add: polygon_bbox_def corners_def Let_def cp sv fv xy_def vadd_def vscale_def S_def F_def)
  have tx: "S * \<bar>sx - of_int (around sx)\<bar> + F * \<bar>fx - of_int (around fx)\<bar> \<le> tilt f"
    and ty: "S * \<bar>sy - of_int (around sy)\<bar> + F * \<bar>fy - of_int (around fy)\<bar> \<le> tilt f"
    by (simp_all add: tilt_def tilt_x_def tilt_y_def sv fv xy_def S_def F_def)
  note dx = corner_deviation[OF around_close[of cx] q tx]
  note dy = corner_deviation[OF around_close[of cy] q ty]
  have w: "bbox_within (1 / 2 + tilt f) (grid_bbox g) (polygon_bbox f)"
    unfolding gb pb bbox_within_def prod.case
    by (intro conjI rmin_list4_close rmax_list4_close dx dy)
  show ?thesis
  proof (intro conjI impI)
    show "bbox_within (1 / 2 + tilt f) (grid_bbox g) (polygon_bbox f)" by (rule w)
    assume "tilt f \<le> 1 / 2"
    then show "bbox_within 1 (grid_bbox g) (polygon_bbox f)"
      using bbox_within_mono[OF w, of 1] by simp
  qed
qed

theorem snapped_bbox_close_witness:
  "snap slanted_fragment = Inr slanted_fragment_snapped
   \<and> fits_int32 slanted_fragment
   \<and> 0 \<le> ss_pixels slanted_fragment \<and> 0 \<le> fs_pixels slanted_fragment
   \<and> tilt slanted_fragment = 24 / 125
   \<and> bbox_within 1 (grid_bbox slanted_fragment_snapped) (polygon_bbox slanted_fragment)"
proof -
  have h: "snap slanted_fragment = Inr slanted_fragment_snapped" by code_simp
  have c: "fits_int32 slanted_fragment" by code_simp
  have p: "0 \<le> ss_pixels slanted_fragment" by code_simp
  have q: "0 \<le> fs_pixels slanted_fragment" by code_simp
  have t: "tilt slanted_fragment = 24 / 125" by code_simp
  have "tilt slanted_fragment \<le> 1 / 2" unfolding t by simp
  with snapped_bbox_close[OF h c p q] h c p q t show ?thesis by blast
qed

subsection \<open>C10: every tile is written inside the canvas\<close>

text \<open>
  Claim C10. For every snapped geometry and every tile in it, with the size and centre that
  \<open>_get_dimensions\<close> computes from the same geometry: element-wise
  \<open>0 \<le> corner_idx + centre\<close> and \<open>opp_corner_idx + centre \<le> size\<close>, and the shifted
  rectangle spans \<open>pixel_dims\<close>. So for a block shape that is not negative the slices
  \<open>y:y+h\<close> and \<open>x:x+w\<close> of the tile's write are not clipped: they start at the shifted
  corner and cover exactly \<open>h\<close> rows and \<open>w\<close> columns of the canvas.
\<close>

theorem tile_rectangle_in_canvas:
  assumes "snap_modules mods = Inr tiles"
    and "get_dimensions_snapped tiles = Inr (canvas, centre)"
    and "tile \<in> set (concat tiles)"
  shows "le2 (0, 0) (add2 (corner_idx tile) centre)
       \<and> le2 (add2 (opp_corner_idx tile) centre) canvas
       \<and> add2 (opp_corner_idx tile) centre = add2 (add2 (corner_idx tile) centre) (pixel_dims tile)
       \<and> (0 \<le> fst (pixel_dims tile) \<and> 0 \<le> snd (pixel_dims tile) \<longrightarrow>
            slice_range (fst (add2 (corner_idx tile) centre)) (fst (pixel_dims tile)) (nat (fst canvas))
              = (nat (fst (corner_idx tile) + fst centre),
                 nat (fst (corner_idx tile) + fst centre) + nat (fst (pixel_dims tile)))
          \<and> slice_range (snd (add2 (corner_idx tile) centre)) (snd (pixel_dims tile)) (nat (snd canvas))
              = (nat (snd (corner_idx tile) + snd centre),
                 nat (snd (corner_idx tile) + snd centre) + nat (snd (pixel_dims tile))))"
proof -
  from assms(3) have ne: "concat tiles \<noteq> []" by (cases "concat tiles") simp_all
  let ?cs = "all_corners (concat tiles)"
  from assms(2) ne have sz: "canvas = sub2 (max_axis0 ?cs) (min_axis0 ?cs)" and ce: "centre = neg2 (min_axis0 ?cs)"
    by (auto simp: get_dimensions_snapped_eq split: if_splits)
  have m: "corner_idx tile \<in> set ?cs" "opp_corner_idx tile \<in> set ?cs"
    using assms(3) by (auto simp: set_all_corners)
  note b = min_axis0_le[OF m(1)] max_axis0_ge[OF m(2)] min_axis0_le[OF m(2)]
  from snapped_tile_origin[OF assms(1,3)] obtain f where "snap f = Inr tile" by blast
  note o = snap_shape(1)[OF this]
  have 1: "le2 (0, 0) (add2 (corner_idx tile) centre)"
    using b by (auto simp: le2_def add2_def neg2_def ce)
  have 2: "le2 (add2 (opp_corner_idx tile) centre) canvas"
    using b by (auto simp: le2_def add2_def neg2_def sub2_def ce sz)
  have 3: "add2 (opp_corner_idx tile) centre = add2 (add2 (corner_idx tile) centre) (pixel_dims tile)"
    unfolding o by (simp add: add2_def)
  show ?thesis
  proof (intro conjI impI)
    assume p: "0 \<le> fst (pixel_dims tile) \<and> 0 \<le> snd (pixel_dims tile)"
    show "slice_range (fst (add2 (corner_idx tile) centre)) (fst (pixel_dims tile)) (nat (fst canvas))
              = (nat (fst (corner_idx tile) + fst centre),
                 nat (fst (corner_idx tile) + fst centre) + nat (fst (pixel_dims tile)))"
      using 1 2 p unfolding 3
      by (subst slice_range_inside) (auto simp: le2_def add2_def)
    show "slice_range (snd (add2 (corner_idx tile) centre)) (snd (pixel_dims tile)) (nat (snd canvas))
              = (nat (snd (corner_idx tile) + snd centre),
                 nat (snd (corner_idx tile) + snd centre) + nat (snd (pixel_dims tile)))"
      using 1 2 p unfolding 3
      by (subst slice_range_inside) (auto simp: le2_def add2_def)
  qed (rule 1 2 3)+
qed

theorem tile_rectangle_in_canvas_witness:
  "snap_modules two_modules = Inr two_modules_snapped
   \<and> get_dimensions_snapped two_modules_snapped = Inr ((288, 520), (160, 0))
   \<and> rotated_fragment_snapped \<in> set (concat two_modules_snapped)
   \<and> 0 \<le> fst (pixel_dims rotated_fragment_snapped) \<and> 0 \<le> snd (pixel_dims rotated_fragment_snapped)
   \<and> le2 (0, 0) (add2 (corner_idx rotated_fragment_snapped) (160, 0))
   \<and> le2 (add2 (opp_corner_idx rotated_fragment_snapped) (160, 0)) (288, 520)
   \<and> slice_range (fst (add2 (corner_idx rotated_fragment_snapped) (160, 0)))
        (fst (pixel_dims rotated_fragment_snapped)) (nat (fst (288 :: int, 520 :: int))) = (0, 128)"
proof -
  have h: "snap_modules two_modules = Inr two_modules_snapped" by code_simp
  have g: "get_dimensions_snapped two_modules_snapped = Inr ((288, 520), (160, 0))" by code_simp
  have m: "rotated_fragment_snapped \<in> set (concat two_modules_snapped)"
    by (simp add: two_modules_snapped_def)
  have p: "0 \<le> fst (pixel_dims rotated_fragment_snapped) \<and> 0 \<le> snd (pixel_dims rotated_fragment_snapped)"
    by code_simp
  have v: "(nat (fst (corner_idx rotated_fragment_snapped) + fst (160 :: int, 0 :: int)),
            nat (fst (corner_idx rotated_fragment_snapped) + fst (160 :: int, 0 :: int))
              + nat (fst (pixel_dims rotated_fragment_snapped))) = (0, 128)"
    by code_simp
  note t = tile_rectangle_in_canvas[OF h g m]
  from t have a: "le2 (0, 0) (add2 (corner_idx rotated_fragment_snapped) (160, 0))" by blast
  from t have b: "le2 (add2 (opp_corner_idx rotated_fragment_snapped) (160, 0)) (288, 520)" by blast
  from t p have c: "slice_range (fst (add2 (corner_idx rotated_fragment_snapped) (160, 0)))
        (fst (pixel_dims rotated_fragment_snapped)) (nat (fst (288 :: int, 520 :: int))) =
      (nat (fst (corner_idx rotated_fragment_snapped) + fst (160 :: int, 0 :: int)),
       nat (fst (corner_idx rotated_fragment_snapped) + fst (160 :: int, 0 :: int))
         + nat (fst (pixel_dims rotated_fragment_snapped)))" by blast
  show ?thesis using h g m p a b c[unfolded v] by blast
qed

subsection \<open>C9: repeated fast assembly and the cached layout\<close>

lemma snapped_cases:
  assumes "cache_ok geom"
  shows "(\<exists>e. snap_modules (modules geom) = Inl e \<and> snapped_cache geom = None
               \<and> snapped geom = (Inl e, geom))
       \<or> (\<exists>ms. snap_modules (modules geom) = Inr ms
               \<and> snapped geom = (Inr \<lparr>sg_modules = ms, sg_geom = detector_of geom\<rparr>,
                                  geom\<lparr>snapped_cache := Some \<lparr>sg_modules = ms, sg_geom = detector_of geom\<rparr>\<rparr>))"
proof (cases "snapped_cache geom")
  case None
  then show ?thesis
    by (cases "snap_modules (modules geom)") (simp_all add: snapped_def Let_def)
next
  case (Some sg)
  with assms have s: "snap_modules (modules geom) = Inr (sg_modules sg)" "sg_geom sg = detector_of geom"
    by (simp_all add: cache_ok_def)
  then have e: "sg = \<lparr>sg_modules = sg_modules sg, sg_geom = detector_of geom\<rparr>" by simp
  have "geom\<lparr>snapped_cache := Some sg\<rparr> = geom" using Some by simp
  then show ?thesis using Some s e by (simp add: snapped_def)
qed

lemma position_modules_fast_cases:
  assumes "cache_ok geom"
  shows "\<exists>geom'. position_modules_fast nan geom data = (fresh_assembly nan geom data, geom')
           \<and> cache_ok geom' \<and> modules geom' = modules geom \<and> detector_of geom' = detector_of geom
           \<and> (snapped_cache geom' \<noteq> None \<or> (\<exists>e. snap_modules (modules geom) = Inl e))"
  using snapped_cases[OF assms]
  by (auto simp: position_modules_fast_def fresh_assembly_def cache_ok_def)

text \<open>
  Claim C9. A geometry object whose cache is empty (as \<open>__init__\<close> leaves it) or was
  filled by \<open>_snapped\<close>: two calls of the fast assembler on the same input, one after
  the other on the same object, return the same result (the same array and centre, or the
  same error); the second call leaves the object as the first left it; and each result is
  the one obtained from a snapped layout computed afresh, without the cache. A geometry
  made by \<open>__init__\<close> is such an object.
\<close>

theorem fast_assembly_repeatable:
  assumes "cache_ok geom"
  shows "(case position_modules_fast nan geom data of (r1, geom1) \<Rightarrow>
           case position_modules_fast nan geom1 data of (r2, geom2) \<Rightarrow>
             r1 = r2 \<and> geom2 = geom1 \<and> cache_ok geom1
             \<and> r1 = fresh_assembly nan geom data \<and> r2 = fresh_assembly nan geom1 data)
       \<and> cache_ok (new_geometry det mods)"
proof
  from position_modules_fast_cases[OF assms, of nan data] obtain geom1 where
    1: "position_modules_fast nan geom data = (fresh_assembly nan geom data, geom1)"
    and ok: "cache_ok geom1" and m: "modules geom1 = modules geom" "detector_of geom1 = detector_of geom"
    and c: "snapped_cache geom1 \<noteq> None \<or> (\<exists>e. snap_modules (modules geom) = Inl e)"
    by blast
  from position_modules_fast_cases[OF ok, of nan data] obtain geom2 where
    2: "position_modules_fast nan geom1 data = (fresh_assembly nan geom1 data, geom2)"
    by blast
  have f: "fresh_assembly nan geom1 data = fresh_assembly nan geom data"
    unfolding fresh_assembly_def m ..
  have g: "geom2 = geom1"
  proof -
    from snapped_cases[OF ok] c m show ?thesis
      using 2 ok
      by (cases "snapped_cache geom1")
        (auto simp: position_modules_fast_def snapped_def cache_ok_def split: sum.splits)
  qed
  show "case position_modules_fast nan geom data of (r1, geom1) \<Rightarrow>
           case position_modules_fast nan geom1 data of (r2, geom2) \<Rightarrow>
             r1 = r2 \<and> geom2 = geom1 \<and> cache_ok geom1
             \<and> r1 = fresh_assembly nan geom data \<and> r2 = fresh_assembly nan geom1 data"
    unfolding 1 prod.case 2 using f g ok by simp
  show "cache_ok (new_geometry det mods)" by (simp add: cache_ok_def new_geometry_def)
qed

theorem fast_assembly_repeatable_witness:
  "cache_ok (new_geometry AGIPD_1M two_modules)
   \<and> (case position_modules_fast (- 1) (new_geometry AGIPD_1M two_modules) module_index_data of
        (r1, geom1) \<Rightarrow>
          case position_modules_fast (- 1) geom1 module_index_data of (r2, geom2) \<Rightarrow>
            r1 = r2 \<and> geom2 = geom1 \<and> cache_ok geom1
            \<and> r1 = fresh_assembly (- 1) (new_geometry AGIPD_1M two_modules) module_index_data
            \<and> r2 = fresh_assembly (- 1) geom1 module_index_data)"
proof -
  have h: "cache_ok (new_geometry AGIPD_1M two_modules)"
    by (simp add: cache_ok_def new_geometry_def)
  note t = fast_assembly_repeatable[OF h, where nan = "- 1" and data = module_index_data
      and det = AGIPD_1M and mods = two_modules]
  show ?thesis by (rule conjI[OF h conjunct1[OF t]])
qed

end
